theory Spec2Isabelle
  imports Main "HOL-Library.Word"
begin

unbundle bit_operations_syntax

section \<open>The platform: files, descriptors and system calls\<close>

text \<open>
  \<^verbatim>\<open>AbstractDiskWriter\<close> talks to the operating system through \<^verbatim>\<open>open\<close>,
  \<^verbatim>\<open>close\<close>, \<^verbatim>\<open>lseek\<close>, \<^verbatim>\<open>write\<close>, \<^verbatim>\<open>read\<close>, \<^verbatim>\<open>ftruncate\<close> and
  \<^verbatim>\<open>fstat\<close>, and reads the global \<^verbatim>\<open>errno\<close>. The platform is a state: a file system
  of directories and regular files, a table of open file descriptions, \<^verbatim>\<open>errno\<close>, and a
  log of every call made with what it returned. What the platform may do on its own account
  (interrupt a call with a signal, fail it, transfer fewer bytes than asked) is given by a
  schedule: the outcome chosen for the n-th call made.
\<close>

type_synonym byte = "8 word"

datatype errno =
  EINTR | ENOSPC | EBADF | EINVAL | ENOENT | EEXIST | EISDIR | ENOTDIR | EACCES | EIO | EFBIG

datatype node = Dir | Reg "byte list"

text \<open>An open file description: the file it refers to, the cursor and the open flags.\<close>

record ofd =
  ofd_path :: string
  ofd_pos :: nat
  ofd_flags :: "32 word"

text \<open>
  What the schedule may choose for a call: let it run to completion, cut a transfer short
  after at most so many bytes, or fail it with an error number (\<open>Fail EINTR\<close> is the
  interruption by a signal).
\<close>

datatype outcome = Ok | Short nat | Fail errno

datatype call =
    COpen string "32 word" "32 word"
  | CClose int
  | CLseek int int
  | CWrite int "byte list"
  | CRead int nat
  | CFtruncate int int
  | CFstat int
  | CMkdirs string

text \<open>A logged call with its result: \<open>Inl e\<close> is a return of -1 with \<^verbatim>\<open>errno\<close> e.\<close>

type_synonym event = "call \<times> (errno + int)"

record os_state =
  nodes :: "string \<Rightarrow> node option"
  fdtab :: "ofd option list"
  errno :: errno
  sched :: "nat \<Rightarrow> outcome"
  trace :: "event list"

definition inject :: "os_state \<Rightarrow> outcome" where
  "inject os = sched os (length (trace os))"

definition sys_fail :: "call \<Rightarrow> errno \<Rightarrow> os_state \<Rightarrow> os_state" where
  "sys_fail c e os = os\<lparr>errno := e, trace := trace os @ [(c, Inl e)]\<rparr>"

definition sys_ok :: "call \<Rightarrow> int \<Rightarrow> os_state \<Rightarrow> os_state" where
  "sys_ok c r os = os\<lparr>trace := trace os @ [(c, Inr r)]\<rparr>"

definition fd_lookup :: "os_state \<Rightarrow> int \<Rightarrow> ofd option" where
  "fd_lookup os fd =
     (if 0 \<le> fd \<and> nat fd < length (fdtab os) then fdtab os ! nat fd else None)"

definition set_ofd :: "int \<Rightarrow> ofd option \<Rightarrow> os_state \<Rightarrow> os_state" where
  "set_ofd fd d os = os\<lparr>fdtab := (fdtab os)[nat fd := d]\<rparr>"

text \<open>A new descriptor is the lowest one not in use.\<close>

fun alloc_fd :: "ofd option list \<Rightarrow> ofd \<Rightarrow> nat \<times> ofd option list" where
  "alloc_fd [] d = (0, [Some d])"
| "alloc_fd (None # t) d = (0, Some d # t)"
| "alloc_fd (Some x # t) d = (case alloc_fd t d of (n, t') \<Rightarrow> (Suc n, Some x # t'))"

text \<open>
  Modelled from the spec: the flags of interest at open time (create, truncate to zero,
  read-write, and the extras append and exclusive) and the constants \<^verbatim>\<open>O_BINARY\<close> and
  \<^verbatim>\<open>OPEN_MODE\<close> of the header \<^verbatim>\<open>a2io.h\<close>, which is not part of the unit. The flags
  have the values of Linux, \<^verbatim>\<open>O_BINARY\<close> is 0 as on every platform without that
  flag, and \<^verbatim>\<open>OPEN_MODE\<close> is \<^verbatim>\<open>rw-r--r--\<close>.
\<close>

definition O_WRONLY :: "32 word" where "O_WRONLY = 0x1"
definition O_RDWR :: "32 word" where "O_RDWR = 0x2"
definition O_ACCMODE :: "32 word" where "O_ACCMODE = 0x3"
definition O_CREAT :: "32 word" where "O_CREAT = 0x40"
definition O_EXCL :: "32 word" where "O_EXCL = 0x80"
definition O_TRUNC :: "32 word" where "O_TRUNC = 0x200"
definition O_APPEND :: "32 word" where "O_APPEND = 0x400"
definition O_BINARY :: "32 word" where "O_BINARY = 0x0"
definition OPEN_MODE :: "32 word" where "OPEN_MODE = 0x1A4"

definition has_flag :: "32 word \<Rightarrow> 32 word \<Rightarrow> bool" where
  "has_flag flags f = (flags AND f \<noteq> 0)"

definition readable :: "ofd \<Rightarrow> bool" where
  "readable d = (ofd_flags d AND O_ACCMODE = 0 \<or> ofd_flags d AND O_ACCMODE = O_RDWR)"

definition writable :: "ofd \<Rightarrow> bool" where
  "writable d = (ofd_flags d AND O_ACCMODE = O_WRONLY \<or> ofd_flags d AND O_ACCMODE = O_RDWR)"

text \<open>
  Modelled from the spec: the path utility \<^verbatim>\<open>File\<close> (\<^verbatim>\<open>exists\<close>, \<^verbatim>\<open>isFile\<close>,
  \<^verbatim>\<open>getDirname\<close>) and the directory utility \<^verbatim>\<open>Util::mkdirs\<close> are collaborators whose
  code is not part of the unit. \<open>exists\<close> says whether the path names anything, \<open>isFile\<close>
  whether it names a regular file, \<open>getDirname\<close> gives the parent directory (the text
  before the last separator), and \<open>mkdirs\<close> makes every missing ancestor directory,
  reporting success or failure; it fails, changing nothing, when one of them exists as
  a regular file.
\<close>

definition exists_path :: "os_state \<Rightarrow> string \<Rightarrow> bool" where
  "exists_path os p = (nodes os p \<noteq> None)"

definition isFile :: "os_state \<Rightarrow> string \<Rightarrow> bool" where
  "isFile os p = (case nodes os p of Some (Reg c) \<Rightarrow> True | _ \<Rightarrow> False)"

definition getDirname :: "string \<Rightarrow> string" where
  "getDirname p = rev (drop 1 (dropWhile (\<lambda>c. c \<noteq> CHR ''/'') (rev p)))"

text \<open>The empty path stands for the directory the path is relative to; it always exists.\<close>

definition is_dir :: "(string \<Rightarrow> node option) \<Rightarrow> string \<Rightarrow> bool" where
  "is_dir ns d = (d = [] \<or> ns d = Some Dir)"

fun ancestors :: "string \<Rightarrow> string \<Rightarrow> string list" where
  "ancestors pre [] = (if pre = [] then [] else [pre])"
| "ancestors pre (c # cs) =
     (if c = CHR ''/'' \<and> pre \<noteq> [] then pre # ancestors (pre @ [c]) cs
      else ancestors (pre @ [c]) cs)"

fun make_dirs :: "string list \<Rightarrow> (string \<Rightarrow> node option) \<Rightarrow> (string \<Rightarrow> node option)" where
  "make_dirs [] ns = ns"
| "make_dirs (d # ds) ns = make_dirs ds (ns(d := Some Dir))"

definition mkdirs :: "string \<Rightarrow> os_state \<Rightarrow> bool \<times> os_state" where
  "mkdirs dir os =
     (let ds = ancestors [] dir in
      if \<exists>d \<in> set ds. isFile os d
      then (False, os\<lparr>trace := trace os @ [(CMkdirs dir, Inr (-1))]\<rparr>)
      else (True, os\<lparr>nodes := make_dirs ds (nodes os),
                     trace := trace os @ [(CMkdirs dir, Inr 0)]\<rparr>))"

subsection \<open>The system calls\<close>

text \<open>
  \<^verbatim>\<open>open(path, flags, mode)\<close>. A directory cannot be opened for writing; an existing
  regular file is refused under \<^verbatim>\<open>O_CREAT|O_EXCL\<close> and emptied under \<^verbatim>\<open>O_TRUNC\<close>;
  a missing file is made under \<^verbatim>\<open>O_CREAT\<close> when its directory exists.
\<close>

definition open_as :: "string \<Rightarrow> 32 word \<Rightarrow> 32 word \<Rightarrow> byte list \<Rightarrow> os_state \<Rightarrow> int \<times> os_state" where
  "open_as path flags mode content os =
     (case alloc_fd (fdtab os) \<lparr>ofd_path = path, ofd_pos = 0, ofd_flags = flags\<rparr> of
        (n, tab) \<Rightarrow>
          (int n, sys_ok (COpen path flags mode) (int n)
                    (os\<lparr>nodes := (nodes os)(path := Some (Reg content)), fdtab := tab\<rparr>)))"

definition sys_open :: "string \<Rightarrow> 32 word \<Rightarrow> 32 word \<Rightarrow> os_state \<Rightarrow> int \<times> os_state" where
  "sys_open path flags mode os =
     (let c = COpen path flags mode in
      case inject os of
        Fail e \<Rightarrow> (-1, sys_fail c e os)
      | _ \<Rightarrow>
        (case nodes os path of
           Some Dir \<Rightarrow> (-1, sys_fail c EISDIR os)
         | Some (Reg content) \<Rightarrow>
             if has_flag flags O_CREAT \<and> has_flag flags O_EXCL then (-1, sys_fail c EEXIST os)
             else open_as path flags mode (if has_flag flags O_TRUNC then [] else content) os
         | None \<Rightarrow>
             if has_flag flags O_CREAT \<and> is_dir (nodes os) (getDirname path)
             then open_as path flags mode [] os
             else (-1, sys_fail c ENOENT os)))"


text \<open>\<^verbatim>\<open>lseek(fd, offset, SEEK_SET)\<close>: the new cursor, or -1.\<close>

definition sys_lseek :: "int \<Rightarrow> int \<Rightarrow> os_state \<Rightarrow> int \<times> os_state" where
  "sys_lseek fd offset os =
     (let c = CLseek fd offset in
      case fd_lookup os fd of
        None \<Rightarrow> (-1, sys_fail c EBADF os)
      | Some d \<Rightarrow>
        if offset < 0 then (-1, sys_fail c EINVAL os)
        else (case inject os of
           Fail e \<Rightarrow> (-1, sys_fail c e os)
         | _ \<Rightarrow> (offset, sys_ok c offset (set_ofd fd (Some (d\<lparr>ofd_pos := nat offset\<rparr>)) os))))"

text \<open>
  Writing \<open>bs\<close> at position \<open>p\<close> of a file: a gap between the end of the file and \<open>p\<close>
  reads as zeros.
\<close>

definition overwrite :: "nat \<Rightarrow> byte list \<Rightarrow> byte list \<Rightarrow> byte list" where
  "overwrite p bs content =
     take p (content @ replicate (p - length content) 0) @ bs @ drop (p + length bs) content"

text \<open>How many of \<open>count\<close> bytes a transfer moves under an outcome that is not a failure.\<close>

fun granted :: "outcome \<Rightarrow> nat \<Rightarrow> nat" where
  "granted (Short k) count = min k count"
| "granted _ count = count"

text \<open>
  \<^verbatim>\<open>write(fd, buf, count)\<close>, the buffer given as the \<open>count\<close> bytes at the pointer:
  the number of bytes written, or -1. Under \<^verbatim>\<open>O_APPEND\<close> the bytes go to the end of
  the file wherever the cursor is.
\<close>

definition sys_write :: "int \<Rightarrow> byte list \<Rightarrow> os_state \<Rightarrow> int \<times> os_state" where
  "sys_write fd buf os =
     (let c = CWrite fd buf in
      case fd_lookup os fd of
        None \<Rightarrow> (-1, sys_fail c EBADF os)
      | Some d \<Rightarrow>
        if \<not> writable d then (-1, sys_fail c EBADF os)
        else (case inject os of
           Fail e \<Rightarrow> (-1, sys_fail c e os)
         | out \<Rightarrow>
           (case nodes os (ofd_path d) of
              Some (Reg content) \<Rightarrow>
                let n = granted out (length buf);
                    p = (if has_flag (ofd_flags d) O_APPEND then length content else ofd_pos d)
                in if n = 0 then (0, sys_ok c 0 os)
                   else (int n, sys_ok c (int n)
                          (set_ofd fd (Some (d\<lparr>ofd_pos := p + n\<rparr>))
                            (os\<lparr>nodes := (nodes os)
                                  (ofd_path d := Some (Reg (overwrite p (take n buf) content)))\<rparr>)))
            | _ \<Rightarrow> (-1, sys_fail c EIO os))))"

text \<open>
  \<^verbatim>\<open>read(fd, buf, count)\<close>: the return value and the bytes stored at the start of the
  buffer. At most the bytes between the cursor and the end of the file are read.
\<close>

definition sys_read :: "int \<Rightarrow> nat \<Rightarrow> os_state \<Rightarrow> int \<times> byte list \<times> os_state" where
  "sys_read fd count os =
     (let c = CRead fd count in
      case fd_lookup os fd of
        None \<Rightarrow> (-1, [], sys_fail c EBADF os)
      | Some d \<Rightarrow>
        if \<not> readable d then (-1, [], sys_fail c EBADF os)
        else (case inject os of
           Fail e \<Rightarrow> (-1, [], sys_fail c e os)
         | out \<Rightarrow>
           (case nodes os (ofd_path d) of
              Some (Reg content) \<Rightarrow>
                let bs = take (granted out count) (drop (ofd_pos d) content)
                in (int (length bs), bs, sys_ok c (int (length bs))
                      (set_ofd fd (Some (d\<lparr>ofd_pos := ofd_pos d + length bs\<rparr>)) os))
            | _ \<Rightarrow> (-1, [], sys_fail c EIO os))))"

text \<open>\<^verbatim>\<open>ftruncate(fd, length)\<close>, the length an \<^verbatim>\<open>off_t\<close>: cuts or zero-extends the file.\<close>

definition sys_ftruncate :: "int \<Rightarrow> int \<Rightarrow> os_state \<Rightarrow> int \<times> os_state" where
  "sys_ftruncate fd len os =
     (let c = CFtruncate fd len in
      case fd_lookup os fd of
        None \<Rightarrow> (-1, sys_fail c EBADF os)
      | Some d \<Rightarrow>
        if \<not> writable d \<or> len < 0 then (-1, sys_fail c EINVAL os)
        else (case inject os of
           Fail e \<Rightarrow> (-1, sys_fail c e os)
         | _ \<Rightarrow>
           (case nodes os (ofd_path d) of
              Some (Reg content) \<Rightarrow>
                (0, sys_ok c 0
                      (os\<lparr>nodes := (nodes os)(ofd_path d := Some (Reg
                             (take (nat len) content @ replicate (nat len - length content) 0)))\<rparr>))
            | _ \<Rightarrow> (-1, sys_fail c EIO os))))"

text \<open>
  \<^verbatim>\<open>fstat(fd, &st)\<close>: the return value and the \<^verbatim>\<open>st_size\<close> of the caller's struct
  after the call. \<open>st\<close> is what the struct held before the call; a call that fails
  leaves it as it was.
\<close>

definition sys_fstat :: "int \<Rightarrow> int \<Rightarrow> os_state \<Rightarrow> int \<times> int \<times> os_state" where
  "sys_fstat fd st os =
     (let c = CFstat fd in
      case fd_lookup os fd of
        None \<Rightarrow> (-1, st, sys_fail c EBADF os)
      | Some d \<Rightarrow>
        (case inject os of
           Fail e \<Rightarrow> (-1, st, sys_fail c e os)
         | _ \<Rightarrow>
           (case nodes os (ofd_path d) of
              Some (Reg content) \<Rightarrow> (0, int (length content), sys_ok c 0 os)
            | _ \<Rightarrow> (-1, st, sys_fail c EIO os))))"

section \<open>AbstractDiskWriter\<close>

text \<open>
  The object: the descriptor \<^verbatim>\<open>fd\<close> (-1 when no file is open) and the bound path.
  The two switches of direct I/O change status flags of the descriptor that nothing below
  reads, and are left out.
  An exception is a value; the object and the platform are returned as they are at the
  moment it is thrown. \<^verbatim>\<open>DlAbortEx\<close> and \<^verbatim>\<open>DownloadFailureException\<close> carry the
  formatted message: the format, the path and the reason.
\<close>

record writer =
  fd :: int
  filename :: string

datatype reason = MSG_FILE_NOT_FOUND | Strerror errno

datatype message =
    EX_FILE_OPEN string reason
  | EX_FILE_SEEK string reason
  | EX_FILE_WRITE string reason
  | EX_FILE_READ string reason
  | File_not_opened

datatype exn = DlAbortEx message | DownloadFailureException message | AssertionFailed

definition AbstractDiskWriter :: writer where
  "AbstractDiskWriter = \<lparr>fd = -1, filename = []\<rparr>"


definition openExistingFile ::
  "writer \<Rightarrow> os_state \<Rightarrow> string \<Rightarrow> nat \<Rightarrow> (exn + unit) \<times> writer \<times> os_state" where
  "openExistingFile w os name totalLength =
     (let w1 = w\<lparr>filename := name\<rparr> in
      if \<not> isFile os name
      then (Inl (DlAbortEx (EX_FILE_OPEN name MSG_FILE_NOT_FOUND)), w1, os)
      else (case sys_open name (O_RDWR OR O_BINARY) OPEN_MODE os of
              (r, os') \<Rightarrow>
                let w2 = w1\<lparr>fd := r\<rparr> in
                if r < 0
                then (Inl (DlAbortEx (EX_FILE_OPEN name (Strerror (errno os')))), w2, os')
                else (Inr (), w2, os')))"

text \<open>
  \<^verbatim>\<open>openFile\<close>: \<^verbatim>\<open>initAndOpenFile\<close> is pure virtual, so the creation policy of the
  subclass is a parameter.
\<close>

definition openFile ::
  "(writer \<Rightarrow> os_state \<Rightarrow> string \<Rightarrow> nat \<Rightarrow> (exn + unit) \<times> writer \<times> os_state) \<Rightarrow>
   writer \<Rightarrow> os_state \<Rightarrow> string \<Rightarrow> nat \<Rightarrow> (exn + unit) \<times> writer \<times> os_state" where
  "openFile initAndOpenFile w os name totalLength =
     (if exists_path os name then openExistingFile w os name totalLength
      else initAndOpenFile w os name totalLength)"

text \<open>
  \<^verbatim>\<open>createFile\<close>: the assertion on the path stops the program when it fails, after
  the path was bound; that end is the result \<open>AssertionFailed\<close>. The directory utility
  reports success or failure and is called for its effect only.
\<close>

definition createFile ::
  "writer \<Rightarrow> os_state \<Rightarrow> string \<Rightarrow> 32 word \<Rightarrow> (exn + unit) \<times> writer \<times> os_state" where
  "createFile w os name addFlags =
     (let w1 = w\<lparr>filename := name\<rparr> in
      if name = [] then (Inl AssertionFailed, w1, os)
      else (case mkdirs (getDirname name) os of
              (made, os1) \<Rightarrow>
                (case sys_open name (O_CREAT OR O_RDWR OR O_TRUNC OR O_BINARY OR addFlags)
                        OPEN_MODE os1 of
                   (r, os') \<Rightarrow>
                     let w2 = w1\<lparr>fd := r\<rparr> in
                     if r < 0
                     then (Inl (DlAbortEx (EX_FILE_OPEN name (Strerror (errno os')))), w2, os')
                     else (Inr (), w2, os'))))"

definition seek :: "writer \<Rightarrow> os_state \<Rightarrow> int \<Rightarrow> (exn + unit) \<times> os_state" where
  "seek w os offset =
     (case sys_lseek (fd w) offset os of
        (r, os') \<Rightarrow>
          if offset \<noteq> r
          then (Inl (DlAbortEx (EX_FILE_SEEK (filename w) (Strerror (errno os')))), os')
          else (Inr (), os'))"

text \<open>
  \<^verbatim>\<open>truncate(uint64_t length)\<close>: the length reaches \<^verbatim>\<open>ftruncate\<close> as an \<^verbatim>\<open>off_t\<close>,
  so a value from \<open>2 ^ 63\<close> on arrives negative. The result of \<^verbatim>\<open>ftruncate\<close> is dropped.
  \<^verbatim>\<open>size\<close> is \<open>size_file\<close> here, \<open>size\<close> being a constant of HOL. Its local
  \<^verbatim>\<open>struct stat fileStat\<close> is not initialised: the \<^verbatim>\<open>st_size\<close> it happens to hold
  when \<^verbatim>\<open>fstat\<close> is called is the parameter \<open>fileStat\<close>.
\<close>

definition to_off_t :: "nat \<Rightarrow> int" where
  "to_off_t n = (let m = int n mod 2 ^ 64 in if m < 2 ^ 63 then m else m - 2 ^ 64)"

definition truncate :: "writer \<Rightarrow> os_state \<Rightarrow> nat \<Rightarrow> (exn + unit) \<times> os_state" where
  "truncate w os len =
     (if fd w = -1 then (Inl (DlAbortEx File_not_opened), os)
      else (case sys_ftruncate (fd w) (to_off_t len) os of (r, os') \<Rightarrow> (Inr (), os')))"

definition size_file :: "writer \<Rightarrow> os_state \<Rightarrow> int \<Rightarrow> (exn + nat) \<times> os_state" where
  "size_file w os fileStat =
     (if fd w = -1 then (Inl (DlAbortEx File_not_opened), os)
      else (case sys_fstat (fd w) fileStat os of
              (r, st_size, os') \<Rightarrow> if r < 0 then (Inr 0, os') else (Inr (nat st_size), os')))"

text \<open>
  The retry loops. A loop that the platform can keep going for ever returns \<open>None\<close>
  when it does not return. The buffer of \<^verbatim>\<open>writeDataInternal\<close> is the \<open>len\<close> bytes at
  \<^verbatim>\<open>data\<close>; a buffer has fewer than \<open>2 ^ 63\<close> bytes, so \<^verbatim>\<open>writtenLength\<close> does not
  overflow.
\<close>

partial_function (option) write_retry :: "int \<Rightarrow> byte list \<Rightarrow> os_state \<Rightarrow> (int \<times> os_state) option" where
  "write_retry fd' buf os =
     (case sys_write fd' buf os of
        (ret, os') \<Rightarrow>
          if ret = -1 \<and> errno os' = EINTR then write_retry fd' buf os' else Some (ret, os'))"

partial_function (option) write_loop ::
  "writer \<Rightarrow> byte list \<Rightarrow> int \<Rightarrow> os_state \<Rightarrow> (int \<times> os_state) option" where
  "write_loop w data writtenLength os =
     (if nat writtenLength < length data
      then (case write_retry (fd w) (drop (nat writtenLength) data) os of
              None \<Rightarrow> None
            | Some (ret, os') \<Rightarrow>
                if ret = -1 then Some (-1, os')
                else write_loop w data (writtenLength + ret) os')
      else Some (writtenLength, os))"

definition writeDataInternal :: "writer \<Rightarrow> os_state \<Rightarrow> byte list \<Rightarrow> (int \<times> os_state) option" where
  "writeDataInternal w os data = write_loop w data 0 os"

partial_function (option) readDataInternal ::
  "writer \<Rightarrow> os_state \<Rightarrow> nat \<Rightarrow> (int \<times> byte list \<times> os_state) option" where
  "readDataInternal w os len =
     (case sys_read (fd w) len os of
        (ret, bs, os') \<Rightarrow>
          if ret = -1 \<and> errno os' = EINTR then readDataInternal w os' len
          else Some (ret, bs, os'))"

definition writeData ::
  "writer \<Rightarrow> os_state \<Rightarrow> byte list \<Rightarrow> int \<Rightarrow> ((exn + unit) \<times> os_state) option" where
  "writeData w os data offset =
     (case seek w os offset of
        (Inl e, os1) \<Rightarrow> Some (Inl e, os1)
      | (Inr u, os1) \<Rightarrow>
        (case writeDataInternal w os1 data of
           None \<Rightarrow> None
         | Some (r, os2) \<Rightarrow>
             if r < 0
             then (if errno os2 = ENOSPC
                   then Some (Inl (DownloadFailureException
                                     (EX_FILE_WRITE (filename w) (Strerror (errno os2)))), os2)
                   else Some (Inl (DlAbortEx
                                     (EX_FILE_WRITE (filename w) (Strerror (errno os2)))), os2))
             else Some (Inr (), os2)))"

text \<open>\<^verbatim>\<open>readData\<close>: the return value and the bytes now at the start of the buffer.\<close>

definition readData ::
  "writer \<Rightarrow> os_state \<Rightarrow> nat \<Rightarrow> int \<Rightarrow> ((exn + int \<times> byte list) \<times> os_state) option" where
  "readData w os len offset =
     (case seek w os offset of
        (Inl e, os1) \<Rightarrow> Some (Inl e, os1)
      | (Inr u, os1) \<Rightarrow>
        (case readDataInternal w os1 len of
           None \<Rightarrow> None
         | Some (ret, bs, os2) \<Rightarrow>
             if ret < 0
             then Some (Inl (DlAbortEx (EX_FILE_READ (filename w) (Strerror (errno os2)))), os2)
             else Some (Inr (ret, bs), os2)))"

section \<open>Notions used to state the properties\<close>

text \<open>The platform after \<open>k\<close> calls \<open>c\<close> in a row were interrupted by a signal.\<close>

definition interrupted :: "call \<Rightarrow> nat \<Rightarrow> os_state \<Rightarrow> os_state" where
  "interrupted c k os = ((sys_fail c EINTR) ^^ k) os"

text \<open>The calls made between two states of the platform.\<close>

definition new_events :: "os_state \<Rightarrow> os_state \<Rightarrow> event list" where
  "new_events os os' = drop (length (trace os)) (trace os')"

text \<open>The bytes that the \<^verbatim>\<open>write\<close> calls of a log have transferred, in order.\<close>

fun written_bytes :: "event list \<Rightarrow> byte list" where
  "written_bytes [] = []"
| "written_bytes ((CWrite f buf, Inr n) # es) = take (nat n) buf @ written_bytes es"
| "written_bytes (e # es) = written_bytes es"

text \<open>
  The error numbers of the calls of one kind that failed for another reason than a signal.
\<close>

fun hard_errors :: "(call \<Rightarrow> bool) \<Rightarrow> event list \<Rightarrow> errno list" where
  "hard_errors P [] = []"
| "hard_errors P ((c, Inl e) # es) =
     (if P c \<and> e \<noteq> EINTR then e # hard_errors P es else hard_errors P es)"
| "hard_errors P ((c, Inr r) # es) = hard_errors P es"

fun is_write :: "call \<Rightarrow> bool" where
  "is_write (CWrite f buf) = True"
| "is_write c = False"

text \<open>
  The file system after the bytes \<open>bs\<close> went to position \<open>p\<close> of the regular file
  at \<open>path\<close>; writing nothing changes nothing.
\<close>

definition put :: "string \<Rightarrow> nat \<Rightarrow> byte list \<Rightarrow> (string \<Rightarrow> node option) \<Rightarrow> (string \<Rightarrow> node option)" where
  "put path p bs ns =
     (if bs = [] then ns
      else (case ns path of
              Some (Reg content) \<Rightarrow> ns(path := Some (Reg (overwrite p bs content)))
            | _ \<Rightarrow> ns))"

text \<open>The outcome that the schedule chose for the latest call made.\<close>

definition last_outcome :: "os_state \<Rightarrow> outcome" where
  "last_outcome os = sched os (length (trace os) - 1)"

text \<open>
  What the platform does from now on: \<open>progressing\<close>, no transfer is cut down to zero
  bytes; \<open>fair_interrupts\<close>, no run of interruptions is endless; \<open>stalled\<close>, every
  transfer is cut down to zero bytes.
\<close>

definition progressing :: "os_state \<Rightarrow> bool" where
  "progressing os = (\<forall>i\<ge>length (trace os). sched os i \<noteq> Short 0)"

definition fair_interrupts :: "os_state \<Rightarrow> bool" where
  "fair_interrupts os = (\<forall>i. \<exists>j\<ge>i. sched os j \<noteq> Fail EINTR)"

definition stalled :: "os_state \<Rightarrow> bool" where
  "stalled os = (\<forall>i\<ge>length (trace os). sched os i = Short 0)"

text \<open>The descriptor of the object is open for writing on a regular file.\<close>

definition open_for_writing :: "os_state \<Rightarrow> writer \<Rightarrow> bool" where
  "open_for_writing os w =
     (case fd_lookup os (fd w) of
        None \<Rightarrow> False
      | Some d \<Rightarrow> writable d \<and> isFile os (ofd_path d))"

section \<open>Concrete platforms\<close>

text \<open>A schedule given by its first outcomes; every later call runs to completion.\<close>

definition sched_of :: "outcome list \<Rightarrow> nat \<Rightarrow> outcome" where
  "sched_of outs i = (if i < length outs then outs ! i else Ok)"

text \<open>A platform with nothing on it and no descriptor open.\<close>

definition os_empty :: "(nat \<Rightarrow> outcome) \<Rightarrow> os_state" where
  "os_empty sch = \<lparr>nodes = (\<lambda>p. None), fdtab = [], errno = ENOENT, sched = sch, trace = []\<rparr>"

text \<open>
  A platform whose only file \<open>f\<close> has the given content and is open on descriptor 0
  with the given flags, and the object bound to it.
\<close>

definition os_open :: "(nat \<Rightarrow> outcome) \<Rightarrow> byte list \<Rightarrow> 32 word \<Rightarrow> os_state" where
  "os_open sch content flags =
     \<lparr>nodes = (\<lambda>p. if p = ''f'' then Some (Reg content) else None),
      fdtab = [Some \<lparr>ofd_path = ''f'', ofd_pos = 0, ofd_flags = flags\<rparr>],
      errno = ENOENT, sched = sch, trace = []\<rparr>"

definition w_f :: writer where
  "w_f = \<lparr>fd = 0, filename = ''f''\<rparr>"

text \<open>
  The file open read/write and empty; the first \<^verbatim>\<open>write\<close> moves one byte, the
  second is interrupted, the third moves one byte again.
\<close>

definition os_short_writes :: os_state where
  "os_short_writes = os_open (sched_of [Ok, Short 1, Fail EINTR, Short 1]) [] O_RDWR"

text \<open>
  A file made by \<^verbatim>\<open>createFile\<close> with the extra flag \<^verbatim>\<open>O_APPEND\<close> on an empty
  platform where every call runs to completion, then written twice at offset 0.
\<close>

definition w_app :: writer where
  "w_app = fst (snd (createFile AbstractDiskWriter (os_empty (sched_of [])) ''f'' O_APPEND))"

definition os_app0 :: os_state where
  "os_app0 = snd (snd (createFile AbstractDiskWriter (os_empty (sched_of [])) ''f'' O_APPEND))"

definition os_app1 :: os_state where
  "os_app1 = snd (the (writeData w_app os_app0 [0x61, 0x62] 0))"

definition os_app2 :: os_state where
  "os_app2 = snd (the (writeData w_app os_app1 [0x63] 0))"

text \<open>
  A file made by \<^verbatim>\<open>createFile\<close> without extra flags and written at offset 0, on a
  platform whose sixth call (the \<^verbatim>\<open>read\<close> that follows) delivers one byte only.
\<close>

definition w_sr :: writer where
  "w_sr = fst (snd (createFile AbstractDiskWriter
                      (os_empty (sched_of [Ok, Ok, Ok, Ok, Ok, Short 1])) ''f'' 0))"

definition os_sr0 :: os_state where
  "os_sr0 = snd (snd (createFile AbstractDiskWriter
                        (os_empty (sched_of [Ok, Ok, Ok, Ok, Ok, Short 1])) ''f'' 0))"

definition os_sr1 :: os_state where
  "os_sr1 = snd (the (writeData w_sr os_sr0 [0x61, 0x62, 0x63] 0))"

text \<open>
  The file holds five bytes and is open read/write; the first \<^verbatim>\<open>read\<close> (the second
  call made) is interrupted by a signal.
\<close>

definition os_hello :: os_state where
  "os_hello = os_open (sched_of [Ok, Fail EINTR]) [0x68, 0x65, 0x6c, 0x6c, 0x6f] O_RDWR"

text \<open>The same file on a platform that fails the first call made with \<^verbatim>\<open>EIO\<close>.\<close>

definition os_hello_eio :: os_state where
  "os_hello_eio = os_open (sched_of [Fail EIO]) [0x68, 0x65, 0x6c, 0x6c, 0x6f] O_RDWR"

text \<open>The file open read/write; the second call made fails with \<^verbatim>\<open>EACCES\<close>.\<close>

definition os_eacces :: os_state where
  "os_eacces = os_open (sched_of [Ok, Fail EACCES]) [] O_RDWR"

text \<open>A platform storing the five bytes in the file \<open>f\<close>, with no descriptor open.\<close>

definition os_stored :: os_state where
  "os_stored =
     \<lparr>nodes = (\<lambda>p. if p = ''f'' then Some (Reg [0x68, 0x65, 0x6c, 0x6c, 0x6f]) else None),
      fdtab = [], errno = ENOENT, sched = sched_of [], trace = []\<rparr>"

text \<open>A creation policy for \<^verbatim>\<open>openFile\<close>: create the file without extra flags.\<close>

definition initAndOpenFile_plain ::
  "writer \<Rightarrow> os_state \<Rightarrow> string \<Rightarrow> nat \<Rightarrow> (exn + unit) \<times> writer \<times> os_state" where
  "initAndOpenFile_plain w os name totalLength = createFile w os name 0"

text \<open>The file open read/write on a platform that interrupts every call.\<close>

definition os_intr :: os_state where
  "os_intr = os_open (\<lambda>i. Fail EINTR) [] O_RDWR"

text \<open>The file open read/write on a platform that cuts every transfer down to nothing.\<close>

definition os_stall :: os_state where
  "os_stall = os_open (\<lambda>i. Short 0) [] O_RDWR"

text \<open>The file open read/write; the third call made fails with \<^verbatim>\<open>ENOSPC\<close>.\<close>

definition os_nospc :: os_state where
  "os_nospc = os_open (sched_of [Ok, Short 1, Fail ENOSPC]) [] O_RDWR"

text \<open>
  The file open read/write; the first call made, a \<^verbatim>\<open>write\<close>, succeeds with zero
  bytes, and every later call runs to completion.
\<close>

definition os_one_zero :: os_state where
  "os_one_zero = os_open (sched_of [Short 0]) [] O_RDWR"

section \<open>Facts about the platform\<close>

lemma sys_fail_simps [simp]:
  "nodes (sys_fail c e os) = nodes os" "fdtab (sys_fail c e os) = fdtab os"
  "sched (sys_fail c e os) = sched os" "errno (sys_fail c e os) = e"
  "trace (sys_fail c e os) = trace os @ [(c, Inl e)]"
  by (simp_all add: sys_fail_def)

lemma sys_ok_simps [simp]:
  "nodes (sys_ok c r os) = nodes os" "fdtab (sys_ok c r os) = fdtab os"
  "sched (sys_ok c r os) = sched os" "errno (sys_ok c r os) = errno os"
  "trace (sys_ok c r os) = trace os @ [(c, Inr r)]"
  by (simp_all add: sys_ok_def)

lemma set_ofd_simps [simp]:
  "nodes (set_ofd f x os) = nodes os" "fdtab (set_ofd f x os) = (fdtab os)[nat f := x]"
  "sched (set_ofd f x os) = sched os" "errno (set_ofd f x os) = errno os"
  "trace (set_ofd f x os) = trace os"
  by (simp_all add: set_ofd_def)

lemma fd_lookup_sys_fail [simp]: "fd_lookup (sys_fail c e os) f = fd_lookup os f"
  by (simp add: fd_lookup_def)

lemma fd_lookup_sys_ok [simp]: "fd_lookup (sys_ok c r os) f = fd_lookup os f"
  by (simp add: fd_lookup_def)

lemma fd_lookup_set_ofd_same:
  "fd_lookup os f = Some d \<Longrightarrow> fd_lookup (set_ofd f x os) f = x"
  by (auto simp: fd_lookup_def split: if_splits)

lemma fd_lookup_nodes_upd [simp]: "fd_lookup (os\<lparr>nodes := ns\<rparr>) f = fd_lookup os f"
  by (simp add: fd_lookup_def)

lemma fd_lookup_nonneg: "fd_lookup os f = Some d \<Longrightarrow> 0 \<le> f"
  by (auto simp: fd_lookup_def split: if_splits)

lemma inject_simps [simp]:
  "inject (set_ofd f x os) = inject os" "inject (os\<lparr>nodes := ns\<rparr>) = inject os"
  by (simp_all add: inject_def)

lemma interrupted_0 [simp]: "interrupted c 0 os = os"
  by (simp add: interrupted_def)

lemma interrupted_Suc: "interrupted c (Suc k) os = interrupted c k (sys_fail c EINTR os)"
  by (simp add: interrupted_def funpow_swap1)

lemma interrupted_simps [simp]:
  "nodes (interrupted c k os) = nodes os" "fdtab (interrupted c k os) = fdtab os"
  "sched (interrupted c k os) = sched os"
  "trace (interrupted c k os) = trace os @ replicate k (c, Inl EINTR)"
  "fd_lookup (interrupted c k os) f = fd_lookup os f"
  by (induction k arbitrary: os; simp add: interrupted_Suc replicate_app_Cons_same)+

lemma errno_interrupted: "errno (interrupted c k os) = (if k = 0 then errno os else EINTR)"
  by (induction k arbitrary: os) (simp_all add: interrupted_Suc)

lemma written_bytes_append [simp]:
  "written_bytes (xs @ ys) = written_bytes xs @ written_bytes ys"
  by (induction xs rule: written_bytes.induct) simp_all

lemma written_bytes_interrupted [simp]: "written_bytes (replicate k (c, Inl e)) = []"
  by (induction k) simp_all

text \<open>One write call.\<close>

lemma sys_write_EINTR:
  "sys_write f buf os = (-1, os') \<Longrightarrow> errno os' = EINTR \<Longrightarrow>
   os' = sys_fail (CWrite f buf) EINTR os \<and> inject os = Fail EINTR"
  by (auto simp: sys_write_def Let_def split: option.splits if_splits outcome.splits node.splits)

lemma write_retry_spec:
  "write_retry f buf os = Some y \<Longrightarrow>
   \<exists>k. sys_write f buf (interrupted (CWrite f buf) k os) = y \<and>
       \<not> (fst y = -1 \<and> errno (snd y) = EINTR) \<and>
       (\<forall>i<k. sched os (length (trace os) + i) = Fail EINTR)"
proof (induct rule: write_retry.raw_induct[rotated 1, consumes 1, case_names step])
  case (step rec f buf os y)
  note 1 = step
  obtain r os1 where step: "sys_write f buf os = (r, os1)" by (cases "sys_write f buf os")
  show ?case
  proof (cases "r = -1 \<and> errno os1 = EINTR")
    case True
    with step 1(2) have "rec f buf os1 = Some y" by simp
    from 1(1)[OF this] obtain k where k:
      "sys_write f buf (interrupted (CWrite f buf) k os1) = y"
      "\<not> (fst y = -1 \<and> errno (snd y) = EINTR)"
      "\<forall>i<k. sched os1 (length (trace os1) + i) = Fail EINTR" by blast
    from True step have os1: "os1 = sys_fail (CWrite f buf) EINTR os" and inj: "inject os = Fail EINTR"
      using sys_write_EINTR by blast+
    have "\<forall>i<Suc k. sched os (length (trace os) + i) = Fail EINTR"
    proof (intro allI impI)
      fix i assume "i < Suc k"
      show "sched os (length (trace os) + i) = Fail EINTR"
      proof (cases i)
        case 0 with inj show ?thesis by (simp add: inject_def)
      next
        case (Suc j)
        with \<open>i < Suc k\<close> k(3) os1 show ?thesis by auto
      qed
    qed
    with k(1,2) os1 show ?thesis
      by (intro exI[of _ "Suc k"]) (simp add: interrupted_Suc)
  next
    case False
    with step 1(2) have "y = (r, os1)" by auto
    with step False show ?thesis by (intro exI[of _ 0]) auto
  qed
qed

lemma hard_errors_append [simp]:
  "hard_errors P (xs @ ys) = hard_errors P xs @ hard_errors P ys"
  by (induction P xs rule: hard_errors.induct) simp_all

lemma hard_errors_interrupted [simp]: "hard_errors P (replicate k (c, Inl EINTR)) = []"
  by (induction k) simp_all

lemma sys_read_EINTR:
  "sys_read f n os = (-1, bs, os') \<Longrightarrow> errno os' = EINTR \<Longrightarrow>
   os' = sys_fail (CRead f n) EINTR os \<and> inject os = Fail EINTR"
  by (auto simp: sys_read_def Let_def split: option.splits if_splits outcome.splits node.splits)

lemma readDataInternal_spec:
  "readDataInternal w os len = Some y \<Longrightarrow>
   \<exists>k. sys_read (fd w) len (interrupted (CRead (fd w) len) k os) = y \<and>
       \<not> (fst y = -1 \<and> errno (snd (snd y)) = EINTR) \<and>
       (\<forall>i<k. sched os (length (trace os) + i) = Fail EINTR)"
proof (induct rule: readDataInternal.raw_induct[rotated 1, consumes 1, case_names step])
  case (step rec w os len y)
  obtain r bs os1 where rd: "sys_read (fd w) len os = (r, bs, os1)"
    by (cases "sys_read (fd w) len os") auto
  show ?case
  proof (cases "r = -1 \<and> errno os1 = EINTR")
    case True
    with rd step(2) have "rec w os1 len = Some y" by simp
    from step(1)[OF this] obtain k where k:
      "sys_read (fd w) len (interrupted (CRead (fd w) len) k os1) = y"
      "\<not> (fst y = -1 \<and> errno (snd (snd y)) = EINTR)"
      "\<forall>i<k. sched os1 (length (trace os1) + i) = Fail EINTR" by blast
    from True rd have os1: "os1 = sys_fail (CRead (fd w) len) EINTR os"
      and inj: "inject os = Fail EINTR"
      using sys_read_EINTR by blast+
    have "\<forall>i<Suc k. sched os (length (trace os) + i) = Fail EINTR"
    proof (intro allI impI)
      fix i assume "i < Suc k"
      show "sched os (length (trace os) + i) = Fail EINTR"
      proof (cases i)
        case 0 with inj show ?thesis by (simp add: inject_def)
      next
        case (Suc j)
        with \<open>i < Suc k\<close> k(3) os1 show ?thesis by auto
      qed
    qed
    with k(1,2) os1 show ?thesis
      by (intro exI[of _ "Suc k"]) (simp add: interrupted_Suc)
  next
    case False
    with rd step(2) have "y = (r, bs, os1)" by auto
    with rd False show ?thesis by (intro exI[of _ 0]) auto
  qed
qed

text \<open>Termination of the retry loops.\<close>

lemma write_retry_terminates:
  "sched os j \<noteq> Fail EINTR \<Longrightarrow> length (trace os) \<le> j \<Longrightarrow> \<exists>y. write_retry f buf os = Some y"
proof (induction "j - length (trace os)" arbitrary: os)
  case 0
  then have "inject os \<noteq> Fail EINTR" by (simp add: inject_def)
  then have "\<not> (fst (sys_write f buf os) = -1 \<and> errno (snd (sys_write f buf os)) = EINTR)"
    using sys_write_EINTR[of f buf os "snd (sys_write f buf os)"]
    by (cases "sys_write f buf os") auto
  then show ?case
    by (subst write_retry.simps) (auto split: prod.splits)
next
  case (Suc n)
  obtain r os1 where step: "sys_write f buf os = (r, os1)" by (cases "sys_write f buf os")
  show ?case
  proof (cases "r = -1 \<and> errno os1 = EINTR")
    case True
    with step have os1: "os1 = sys_fail (CWrite f buf) EINTR os"
      using sys_write_EINTR by blast
    with Suc(2,3,4) have "n = j - length (trace os1)" "sched os1 j \<noteq> Fail EINTR"
      "length (trace os1) \<le> j" by auto
    from Suc(1)[OF this] obtain y where "write_retry f buf os1 = Some y" by blast
    with step True show ?thesis by (subst write_retry.simps) simp
  next
    case False
    with step show ?thesis by (subst write_retry.simps) auto
  qed
qed

lemma readDataInternal_terminates:
  "sched os j \<noteq> Fail EINTR \<Longrightarrow> length (trace os) \<le> j \<Longrightarrow>
   \<exists>y. readDataInternal w os len = Some y"
proof (induction "j - length (trace os)" arbitrary: os)
  case 0
  then have "inject os \<noteq> Fail EINTR" by (simp add: inject_def)
  then have "\<not> (fst (sys_read (fd w) len os) = -1 \<and>
                errno (snd (snd (sys_read (fd w) len os))) = EINTR)"
    using sys_read_EINTR[of "fd w" len os _ "snd (snd (sys_read (fd w) len os))"]
    by (cases "sys_read (fd w) len os") auto
  then show ?case
    by (subst readDataInternal.simps) (auto split: prod.splits)
next
  case (Suc n)
  obtain r bs os1 where step: "sys_read (fd w) len os = (r, bs, os1)"
    by (cases "sys_read (fd w) len os") auto
  show ?case
  proof (cases "r = -1 \<and> errno os1 = EINTR")
    case True
    with step have os1: "os1 = sys_fail (CRead (fd w) len) EINTR os"
      using sys_read_EINTR by blast
    with Suc(2,3,4) have "n = j - length (trace os1)" "sched os1 j \<noteq> Fail EINTR"
      "length (trace os1) \<le> j" by auto
    from Suc(1)[OF this] obtain y where "readDataInternal w os1 len = Some y" by blast
    with step True show ?thesis by (subst readDataInternal.simps) (cases y; simp)
  next
    case False
    with step show ?thesis by (subst readDataInternal.simps) auto
  qed
qed

lemma sys_write_trace:
  "sys_write f buf os = (r, os') \<Longrightarrow>
   sched os' = sched os \<and>
   (\<exists>res. trace os' = trace os @ [(CWrite f buf, res)] \<and>
      (r = -1 \<longrightarrow> res = Inl (errno os')) \<and>
      (r \<noteq> -1 \<longrightarrow> res = Inr r \<and> 0 \<le> r \<and> nat r \<le> length buf))"
  by (auto simp: sys_write_def Let_def split: option.splits if_splits outcome.splits node.splits)

lemma write_retry_trace:
  assumes "write_retry f buf os = Some (r, os')"
  shows "sched os' = sched os \<and>
   (\<exists>k res. trace os' = trace os @ replicate k (CWrite f buf, Inl EINTR) @ [(CWrite f buf, res)] \<and>
      (\<forall>i<k. sched os (length (trace os) + i) = Fail EINTR) \<and>
      (r = -1 \<longrightarrow> res = Inl (errno os') \<and> errno os' \<noteq> EINTR) \<and>
      (r \<noteq> -1 \<longrightarrow> res = Inr r \<and> 0 \<le> r \<and> nat r \<le> length buf))"
proof -
  from write_retry_spec[OF assms] obtain k where
    k: "sys_write f buf (interrupted (CWrite f buf) k os) = (r, os')"
       "\<not> (r = -1 \<and> errno os' = EINTR)"
       "\<forall>i<k. sched os (length (trace os) + i) = Fail EINTR" by auto
  from sys_write_trace[OF k(1)] k(2,3) show ?thesis
    by simp blast
qed

lemma write_loop_trace:
  "write_loop w data k os = Some y \<Longrightarrow>
   0 \<le> k \<longrightarrow> nat k \<le> length data \<longrightarrow>
   sched (snd y) = sched os \<and>
   (\<exists>new. trace (snd y) = trace os @ new \<and>
      (fst y = -1 \<and> hard_errors is_write new = [errno (snd y)] \<and> errno (snd y) \<noteq> EINTR \<or>
       fst y = int (length data) \<and> hard_errors is_write new = [] \<and>
         written_bytes new = drop (nat k) data))"
proof (induct rule: write_loop.raw_induct[rotated 1, consumes 1, case_names step])
  case (step rec w data k os y)
  show ?case
  proof (intro impI)
    assume k0: "0 \<le> k" and kl: "nat k \<le> length data"
    show "sched (snd y) = sched os \<and>
      (\<exists>new. trace (snd y) = trace os @ new \<and>
        (fst y = -1 \<and> hard_errors is_write new = [errno (snd y)] \<and> errno (snd y) \<noteq> EINTR \<or>
         fst y = int (length data) \<and> hard_errors is_write new = [] \<and>
           written_bytes new = drop (nat k) data))"
    proof (cases "nat k < length data")
      case False
      with step(2) kl k0 have "y = (k, os)" "nat k = length data" by auto
      with k0 show ?thesis by auto
    next
      case True
      let ?buf = "drop (nat k) data"
      from True step(2) obtain r os1 where
        wr: "write_retry (fd w) ?buf os = Some (r, os1)"
        by (auto split: option.splits)
      from write_retry_trace[OF wr] obtain j res where
        s1: "sched os1 = sched os" and
        t1: "trace os1 = trace os @ replicate j (CWrite (fd w) ?buf, Inl EINTR) @ [(CWrite (fd w) ?buf, res)]" and
        rneg: "r = -1 \<longrightarrow> res = Inl (errno os1) \<and> errno os1 \<noteq> EINTR" and
        rpos: "r \<noteq> -1 \<longrightarrow> res = Inr r \<and> 0 \<le> r \<and> nat r \<le> length ?buf" by blast
      show ?thesis
      proof (cases "r = -1")
        case True
        with \<open>nat k < length data\<close> step(2) wr have "y = (-1, os1)" by simp
        with True rneg s1 t1 show ?thesis by simp
      next
        case False
        with \<open>nat k < length data\<close> step(2) wr have rec: "rec w data (k + r) os1 = Some y" by simp
        from False rpos have r: "res = Inr r" "0 \<le> r" "nat r \<le> length ?buf" by auto
        with k0 kl have "0 \<le> k + r" "nat (k + r) \<le> length data"
          by (auto simp: nat_add_distrib)
        with step(1)[OF rec] obtain new where
          s2: "sched (snd y) = sched os1" and
          t2: "trace (snd y) = trace os1 @ new" and
          d: "fst y = -1 \<and> hard_errors is_write new = [errno (snd y)] \<and> errno (snd y) \<noteq> EINTR \<or>
              fst y = int (length data) \<and> hard_errors is_write new = [] \<and>
                written_bytes new = drop (nat (k + r)) data" by blast
        have "drop (nat (k + r)) data = drop (nat r) ?buf"
          using k0 r by (simp add: nat_add_distrib add.commute)
        then have split: "take (nat r) ?buf @ drop (nat (k + r)) data = ?buf"
          by (simp only: append_take_drop_id)
        let ?new = "replicate j (CWrite (fd w) ?buf, Inl EINTR) @ [(CWrite (fd w) ?buf, res)] @ new"
        have "trace (snd y) = trace os @ ?new" using t1 t2 by simp
        moreover have "hard_errors is_write ?new = hard_errors is_write new"
          using r by simp
        moreover have "written_bytes ?new = take (nat r) ?buf @ written_bytes new"
          using r by simp
        ultimately show ?thesis using d s1 s2 split
          by (intro conjI exI[of _ ?new]) auto
      qed
    qed
  qed
qed

text \<open>The effect of the write loop on the file.\<close>

lemma overwrite_append:
  "overwrite p (xs @ ys) c = overwrite (p + length xs) ys (overwrite p xs c)"
proof -
  define A where "A = take p (c @ replicate (p - length c) 0)"
  have lenA: "length A = p" by (simp add: A_def min_def)
  have 1: "overwrite p xs c = A @ xs @ drop (p + length xs) c"
    by (simp add: overwrite_def A_def)
  have 2: "overwrite p (xs @ ys) c = A @ xs @ ys @ drop (p + length xs + length ys) c"
    by (simp add: overwrite_def A_def add.assoc)
  have "overwrite (p + length xs) ys (A @ xs @ drop (p + length xs) c) =
        A @ xs @ ys @ drop (p + length xs + length ys) c"
    by (simp add: overwrite_def lenA add.commute add.left_commute)
  with 1 2 show ?thesis by simp
qed

lemma drop_overwrite: "drop p (overwrite p xs c) = xs @ drop (p + length xs) c"
  by (simp add: overwrite_def)

lemma put_Nil [simp]: "put path p [] ns = ns"
  by (simp add: put_def)

lemma put_put:
  "put path (p + length xs) ys (put path p xs ns) = put path p (xs @ ys) ns"
proof (cases "xs = [] \<or> ys = []")
  case True
  then show ?thesis by auto
next
  case False
  then show ?thesis
    by (auto simp: put_def overwrite_append split: option.splits node.splits)
qed

lemma sys_write_effect:
  "sys_write f buf os = (r, os') \<Longrightarrow> r \<noteq> -1 \<Longrightarrow> fd_lookup os f = Some d \<Longrightarrow>
   \<not> has_flag (ofd_flags d) O_APPEND \<Longrightarrow>
   nodes os' = put (ofd_path d) (ofd_pos d) (take (nat r) buf) (nodes os) \<and>
   fd_lookup os' f = Some (d\<lparr>ofd_pos := ofd_pos d + nat r\<rparr>) \<and>
   (0 < r \<longrightarrow> (\<exists>c. nodes os (ofd_path d) = Some (Reg c)))"
  by (auto simp: sys_write_def Let_def put_def fd_lookup_set_ofd_same min_def
           split: option.splits if_splits outcome.splits node.splits)

lemma write_retry_effect:
  assumes "write_retry f buf os = Some (r, os')" "r \<noteq> -1" "fd_lookup os f = Some d"
    "\<not> has_flag (ofd_flags d) O_APPEND"
  shows "nodes os' = put (ofd_path d) (ofd_pos d) (take (nat r) buf) (nodes os) \<and>
   fd_lookup os' f = Some (d\<lparr>ofd_pos := ofd_pos d + nat r\<rparr>) \<and>
   (0 < r \<longrightarrow> (\<exists>c. nodes os (ofd_path d) = Some (Reg c)))"
proof -
  from write_retry_spec[OF assms(1)] obtain k where
    k: "sys_write f buf (interrupted (CWrite f buf) k os) = (r, os')" by auto
  from sys_write_effect[OF k assms(2), of d] assms(3,4) show ?thesis by simp
qed

lemma write_loop_effect:
  "write_loop w data k os = Some y \<Longrightarrow>
   \<forall>d. fst y \<noteq> -1 \<longrightarrow> 0 \<le> k \<longrightarrow> nat k \<le> length data \<longrightarrow>
       fd_lookup os (fd w) = Some d \<longrightarrow> \<not> has_flag (ofd_flags d) O_APPEND \<longrightarrow>
       nodes (snd y) = put (ofd_path d) (ofd_pos d) (drop (nat k) data) (nodes os) \<and>
       fd_lookup (snd y) (fd w) = Some (d\<lparr>ofd_pos := ofd_pos d + (length data - nat k)\<rparr>) \<and>
       (nat k < length data \<longrightarrow> (\<exists>c. nodes os (ofd_path d) = Some (Reg c)))"
proof (induct rule: write_loop.raw_induct[rotated 1, consumes 1, case_names step])
  case (step rec w data k os y)
  show ?case
  proof (intro allI impI)
    fix d
    assume ok: "fst y \<noteq> -1" and k0: "0 \<le> k" and kl: "nat k \<le> length data"
      and d: "fd_lookup os (fd w) = Some d" and na: "\<not> has_flag (ofd_flags d) O_APPEND"
    show "nodes (snd y) = put (ofd_path d) (ofd_pos d) (drop (nat k) data) (nodes os) \<and>
       fd_lookup (snd y) (fd w) = Some (d\<lparr>ofd_pos := ofd_pos d + (length data - nat k)\<rparr>) \<and>
       (nat k < length data \<longrightarrow> (\<exists>c. nodes os (ofd_path d) = Some (Reg c)))"
    proof (cases "nat k < length data")
      case False
      with step(2) kl d show ?thesis by auto
    next
      case True
      let ?buf = "drop (nat k) data"
      from True step(2) obtain r os1 where
        wr: "write_retry (fd w) ?buf os = Some (r, os1)"
        by (auto split: option.splits)
      from True step(2) wr ok have r1: "r \<noteq> -1" and rec: "rec w data (k + r) os1 = Some y"
        by (auto split: if_splits)
      from write_retry_trace[OF wr] r1 have r: "0 \<le> r" "nat r \<le> length ?buf" by auto
      from write_retry_effect[OF wr r1 d na] have
        n1: "nodes os1 = put (ofd_path d) (ofd_pos d) (take (nat r) ?buf) (nodes os)" and
        d1: "fd_lookup os1 (fd w) = Some (d\<lparr>ofd_pos := ofd_pos d + nat r\<rparr>)" and
        reg: "0 < r \<longrightarrow> (\<exists>c. nodes os (ofd_path d) = Some (Reg c))" by auto
      from k0 kl r have k': "0 \<le> k + r" "nat (k + r) \<le> length data"
        by (auto simp: nat_add_distrib)
      from step(1)[OF rec] ok k' d1 na have
        n2: "nodes (snd y) = put (ofd_path d) (ofd_pos d + nat r) (drop (nat (k + r)) data) (nodes os1)" and
        d2: "fd_lookup (snd y) (fd w) =
               Some (d\<lparr>ofd_pos := ofd_pos d + nat r + (length data - nat (k + r))\<rparr>)" and
        reg2: "nat (k + r) < length data \<longrightarrow> (\<exists>c. nodes os1 (ofd_path d) = Some (Reg c))"
        by auto
      have dd: "drop (nat (k + r)) data = drop (nat r) ?buf"
        using k0 r by (simp add: nat_add_distrib add.commute)
      have len: "length (take (nat r) ?buf) = nat r" using r by simp
      have "nodes (snd y) = put (ofd_path d) (ofd_pos d) (take (nat r) ?buf @ drop (nat r) ?buf) (nodes os)"
        using n2 n1 dd put_put[of "ofd_path d" "ofd_pos d" "take (nat r) ?buf" "drop (nat r) ?buf" "nodes os"]
        by (simp only: len)
      then have A: "nodes (snd y) = put (ofd_path d) (ofd_pos d) ?buf (nodes os)"
        by (simp only: append_take_drop_id)
      have B: "fd_lookup (snd y) (fd w) = Some (d\<lparr>ofd_pos := ofd_pos d + (length data - nat k)\<rparr>)"
        using d2 k0 r by (simp add: nat_add_distrib)
      have C: "\<exists>c. nodes os (ofd_path d) = Some (Reg c)"
      proof (cases "0 < r")
        case True with reg show ?thesis by simp
      next
        case False
        with r have "r = 0" by simp
        with n1 reg2 \<open>nat k < length data\<close> show ?thesis by simp
      qed
      from A B C show ?thesis by simp
    qed
  qed
qed

lemma seek_trace:
  "seek w os off = (res, os1) \<Longrightarrow>
   sched os1 = sched os \<and> nodes os1 = nodes os \<and>
   (\<exists>r. trace os1 = trace os @ [(CLseek (fd w) off, r)])"
  by (auto simp: seek_def sys_lseek_def Let_def split: option.splits if_splits outcome.splits)

lemma new_events_append: "trace os' = trace os @ new \<Longrightarrow> new_events os os' = new"
  by (simp add: new_events_def)

lemmas eval_defs = writeData_def writeDataInternal_def readData_def seek_def
  sys_lseek_def sys_write_def sys_read_def
  fd_lookup_def inject_def sched_of_def os_open_def os_empty_def w_f_def
  sys_ok_def sys_fail_def set_ofd_def new_events_def
  writable_def readable_def has_flag_def overwrite_def Let_def
  O_RDWR_def O_ACCMODE_def O_APPEND_def O_WRONLY_def O_CREAT_def O_EXCL_def O_TRUNC_def
  O_BINARY_def OPEN_MODE_def

lemma seek_effect:
  "seek w os off = (Inr (), os1) \<Longrightarrow> 0 \<le> off \<Longrightarrow>
   \<exists>d. fd_lookup os (fd w) = Some d \<and> fd_lookup os1 (fd w) = Some (d\<lparr>ofd_pos := nat off\<rparr>)"
  by (auto simp: seek_def sys_lseek_def Let_def fd_lookup_set_ofd_same
           split: option.splits if_splits outcome.splits)

lemma granted_le: "granted out n \<le> n"
  by (cases out) simp_all

lemma sys_read_effect:
  "sys_read f n os = (r, bs, os') \<Longrightarrow> r \<noteq> -1 \<Longrightarrow> fd_lookup os f = Some d \<Longrightarrow>
   \<exists>c. nodes os (ofd_path d) = Some (Reg c) \<and>
       bs = take (granted (inject os) n) (drop (ofd_pos d) c) \<and> r = int (length bs) \<and>
       nodes os' = nodes os \<and> sched os' = sched os \<and>
       trace os' = trace os @ [(CRead f n, Inr r)]"
  by (auto simp: sys_read_def Let_def split: option.splits if_splits outcome.splits node.splits)

lemma readDataInternal_effect:
  assumes "readDataInternal w os n = Some (r, bs, os')" "r \<noteq> -1" "fd_lookup os (fd w) = Some d"
  shows "\<exists>c k. nodes os (ofd_path d) = Some (Reg c) \<and>
       bs = take (granted (sched os (length (trace os) + k)) n) (drop (ofd_pos d) c) \<and>
       r = int (length bs) \<and> nodes os' = nodes os \<and> sched os' = sched os \<and>
       trace os' = trace os @ replicate k (CRead (fd w) n, Inl EINTR) @ [(CRead (fd w) n, Inr r)]"
proof -
  from readDataInternal_spec[OF assms(1)] obtain k where
    k: "sys_read (fd w) n (interrupted (CRead (fd w) n) k os) = (r, bs, os')" by auto
  from sys_read_effect[OF k assms(2), of d] assms(3) show ?thesis
    by (simp add: inject_def) blast
qed

lemmas eval_defs2 = createFile_def mkdirs_def sys_open_def open_as_def getDirname_def isFile_def
  is_dir_def AbstractDiskWriter_def

lemma sys_read_result:
  "sys_read f n os = (r, bs, os') \<Longrightarrow>
   sched os' = sched os \<and>
   (r = -1 \<and> bs = [] \<and> trace os' = trace os @ [(CRead f n, Inl (errno os'))] \<or>
    r = int (length bs) \<and> length bs \<le> n \<and> trace os' = trace os @ [(CRead f n, Inr r)])"
  using granted_le[of "inject os" n]
  by (auto simp: sys_read_def Let_def split: option.splits if_splits outcome.splits node.splits)

lemma readDataInternal_trace:
  assumes "readDataInternal w os n = Some (r, bs, os')"
  shows "sched os' = sched os \<and>
   (\<exists>k. (r = -1 \<and> bs = [] \<and> errno os' \<noteq> EINTR \<and>
          trace os' = trace os @ replicate k (CRead (fd w) n, Inl EINTR) @
                        [(CRead (fd w) n, Inl (errno os'))]) \<or>
        (r = int (length bs) \<and> length bs \<le> n \<and>
          trace os' = trace os @ replicate k (CRead (fd w) n, Inl EINTR) @
                        [(CRead (fd w) n, Inr r)]))"
proof -
  from readDataInternal_spec[OF assms] obtain k where
    k: "sys_read (fd w) n (interrupted (CRead (fd w) n) k os) = (r, bs, os')"
       "\<not> (r = -1 \<and> errno os' = EINTR)" by auto
  from sys_read_result[OF k(1)] k(2) show ?thesis
    by simp blast
qed

lemma sys_fstat_result:
  "sys_fstat f st0 os = (r, st, os') \<Longrightarrow>
   (r = -1 \<and> st = st0 \<and> trace os' = trace os @ [(CFstat f, Inl (errno os'))]) \<or>
   (r = 0 \<and> trace os' = trace os @ [(CFstat f, Inr 0)] \<and>
      (\<exists>d c. fd_lookup os f = Some d \<and> nodes os (ofd_path d) = Some (Reg c) \<and>
             st = int (length c)))"
  by (auto simp: sys_fstat_def Let_def split: option.splits if_splits outcome.splits node.splits)

lemma fd_lookup_minus_one [simp]: "fd_lookup os (- 1) = None"
  by (simp add: fd_lookup_def)

lemma unopened_guards:
  assumes "fd w = -1"
  shows "fst (truncate w os n) = Inl (DlAbortEx File_not_opened)"
    and "fst (size_file w os fileStat) = Inl (DlAbortEx File_not_opened)"
    and "off \<noteq> -1 \<Longrightarrow>
           fst (seek w os off) = Inl (DlAbortEx (EX_FILE_SEEK (filename w) (Strerror EBADF)))"
    and "off \<noteq> -1 \<Longrightarrow> map_option fst (writeData w os data off) =
           Some (Inl (DlAbortEx (EX_FILE_SEEK (filename w) (Strerror EBADF))))"
    and "off \<noteq> -1 \<Longrightarrow> map_option fst (readData w os len off) =
           Some (Inl (DlAbortEx (EX_FILE_SEEK (filename w) (Strerror EBADF))))"
    and "map_option fst (readData w os len (- 1)) =
           Some (Inl (DlAbortEx (EX_FILE_READ (filename w) (Strerror EBADF))))"
    and "fst (seek w os (- 1)) = Inr ()"
    and "map_option fst (writeData w os [] (- 1)) = Some (Inr ())"
  using assms
  by (simp_all add: truncate_def size_file_def seek_def sys_lseek_def writeData_def readData_def
        readDataInternal.simps sys_read_def writeDataInternal_def write_loop.simps)

lemma alloc_fd_result:
  "alloc_fd tab d = (n, tab') \<Longrightarrow> n < length tab' \<and> tab' ! n = Some d"
  by (induction tab d arbitrary: n tab' rule: alloc_fd.induct) (auto split: prod.splits)

lemma open_as_result:
  "open_as path flags mode content os = (r, os') \<Longrightarrow>
   0 \<le> r \<and> trace os' = trace os @ [(COpen path flags mode, Inr r)] \<and>
   fd_lookup os' r = Some \<lparr>ofd_path = path, ofd_pos = 0, ofd_flags = flags\<rparr> \<and>
   nodes os' = (nodes os)(path := Some (Reg content))"
  by (auto simp: open_as_def fd_lookup_def dest: alloc_fd_result split: prod.splits)

lemma sys_open_result:
  "sys_open path flags mode os = (r, os') \<Longrightarrow>
   (r = -1 \<and> nodes os' = nodes os \<and> fdtab os' = fdtab os \<and>
    trace os' = trace os @ [(COpen path flags mode, Inl (errno os'))]) \<or>
   (0 \<le> r \<and> trace os' = trace os @ [(COpen path flags mode, Inr r)] \<and>
    fd_lookup os' r = Some \<lparr>ofd_path = path, ofd_pos = 0, ofd_flags = flags\<rparr> \<and>
    nodes os' = (nodes os)(path := Some (Reg
       (if has_flag flags O_TRUNC then []
        else (case nodes os path of Some (Reg c) \<Rightarrow> c | _ \<Rightarrow> [])))))"
  by (auto simp: sys_open_def Let_def dest!: open_as_result
           split: option.splits if_splits outcome.splits node.splits)

lemma flags_existing: "\<not> has_flag (O_RDWR OR O_BINARY) O_TRUNC"
  by (simp add: has_flag_def O_RDWR_def O_BINARY_def O_TRUNC_def)

lemma flags_create: "has_flag (O_CREAT OR O_RDWR OR O_TRUNC OR O_BINARY OR addFlags) O_TRUNC"
proof -
  have "(O_CREAT OR O_RDWR OR O_TRUNC OR O_BINARY OR addFlags) AND O_TRUNC = O_TRUNC"
    by (auto simp: bit_eq_iff bit_and_iff bit_or_iff)
  then show ?thesis by (simp add: has_flag_def O_TRUNC_def)
qed

lemma make_dirs_apply: "make_dirs ds ns d = (if d \<in> set ds then Some Dir else ns d)"
  by (induction ds arbitrary: ns) auto

lemma ancestors_length: "a \<in> set (ancestors pre cs) \<Longrightarrow> length a \<le> length pre + length cs"
  by (induction pre cs rule: ancestors.induct) (auto split: if_splits)

lemma getDirname_shorter: "name \<noteq> [] \<Longrightarrow> length (getDirname name) < length name"
proof -
  assume n: "name \<noteq> []"
  let ?ys = "dropWhile (\<lambda>c. c \<noteq> CHR ''/'') (rev name)"
  have "length ?ys \<le> length name" using length_dropWhile_le[of _ "rev name"] by simp
  moreover have "length (getDirname name) = length ?ys - 1" by (simp add: getDirname_def)
  ultimately show ?thesis using n by (cases name) auto
qed

lemma ancestors_not_name:
  "name \<noteq> [] \<Longrightarrow> a \<in> set (ancestors [] (getDirname name)) \<Longrightarrow> a \<noteq> name"
  using ancestors_length[of a "[]" "getDirname name"] getDirname_shorter[of name] by auto

lemma mkdirs_result:
  "mkdirs dir os = (made, os1) \<Longrightarrow>
   trace os1 = trace os @ [(CMkdirs dir, Inr (if made then 0 else - 1))] \<and>
   fdtab os1 = fdtab os \<and> sched os1 = sched os \<and> errno os1 = errno os \<and>
   (made \<longrightarrow> (\<forall>a\<in>set (ancestors [] dir). nodes os1 a = Some Dir)) \<and>
   (\<forall>p. p \<notin> set (ancestors [] dir) \<longrightarrow> nodes os1 p = nodes os p)"
  by (auto simp: mkdirs_def Let_def make_dirs_apply split: if_splits)

lemma openExistingFile_result:
  "openExistingFile w os name len = (res, w', os') \<Longrightarrow>
   nodes os' = nodes os \<and>
   (res = Inr () \<longrightarrow>
      new_events os os' = [(COpen name (O_RDWR OR O_BINARY) OPEN_MODE, Inr (fd w'))] \<and>
      fd_lookup os' (fd w') =
        Some \<lparr>ofd_path = name, ofd_pos = 0, ofd_flags = O_RDWR OR O_BINARY\<rparr>)"
proof (cases "isFile os name")
  case False
  assume "openExistingFile w os name len = (res, w', os')"
  with False show ?thesis by (auto simp: openExistingFile_def)
next
  case True
  assume a: "openExistingFile w os name len = (res, w', os')"
  obtain r os1 where op: "sys_open name (O_RDWR OR O_BINARY) OPEN_MODE os = (r, os1)"
    by (cases "sys_open name (O_RDWR OR O_BINARY) OPEN_MODE os")
  from True obtain c where c: "nodes os name = Some (Reg c)"
    by (auto simp: isFile_def split: option.splits node.splits)
  from sys_open_result[OF op] show ?thesis
  proof
    assume "r = -1 \<and> nodes os1 = nodes os \<and> fdtab os1 = fdtab os \<and>
      trace os1 = trace os @ [(COpen name (O_RDWR OR O_BINARY) OPEN_MODE, Inl (errno os1))]"
    then have "r = -1" "nodes os1 = nodes os" by auto
    with a True op show ?thesis by (auto simp: openExistingFile_def)
  next
    assume b: "0 \<le> r \<and>
      trace os1 = trace os @ [(COpen name (O_RDWR OR O_BINARY) OPEN_MODE, Inr r)] \<and>
      fd_lookup os1 r = Some \<lparr>ofd_path = name, ofd_pos = 0, ofd_flags = O_RDWR OR O_BINARY\<rparr> \<and>
      nodes os1 = (nodes os)(name := Some (Reg
       (if has_flag (O_RDWR OR O_BINARY) O_TRUNC then []
        else (case nodes os name of Some (Reg c) \<Rightarrow> c | _ \<Rightarrow> []))))"
    with c flags_existing have "nodes os1 = nodes os" by (simp add: fun_upd_idem)
    moreover from b have "new_events os os1 = [(COpen name (O_RDWR OR O_BINARY) OPEN_MODE, Inr r)]"
      by (intro new_events_append) simp
    ultimately show ?thesis using a True op b by (auto simp: openExistingFile_def)
  qed
qed

lemma createFile_result:
  assumes "createFile w os name addFlags = (res, w', os')" and "name \<noteq> []"
  shows "(\<exists>m r. new_events os os' =
            [(CMkdirs (getDirname name), Inr m),
             (COpen name (O_CREAT OR O_RDWR OR O_TRUNC OR O_BINARY OR addFlags) OPEN_MODE, r)] \<and>
            (m = 0 \<longrightarrow> (\<forall>a\<in>set (ancestors [] (getDirname name)). nodes os' a = Some Dir))) \<and>
         (res = Inr () \<longrightarrow>
            nodes os' name = Some (Reg []) \<and>
            fd_lookup os' (fd w') =
              Some \<lparr>ofd_path = name, ofd_pos = 0,
                    ofd_flags = O_CREAT OR O_RDWR OR O_TRUNC OR O_BINARY OR addFlags\<rparr>)"
proof -
  let ?fl = "O_CREAT OR O_RDWR OR O_TRUNC OR O_BINARY OR addFlags"
  let ?m = "if made then 0 else - 1 :: int"
  obtain made os1 where mk: "mkdirs (getDirname name) os = (made, os1)"
    by (cases "mkdirs (getDirname name) os")
  obtain r os2 where op: "sys_open name ?fl OPEN_MODE os1 = (r, os2)"
    by (cases "sys_open name ?fl OPEN_MODE os1")
  define m :: int where "m = (if made then 0 else - 1)"
  from mkdirs_result[OF mk] have
    t1: "trace os1 = trace os @ [(CMkdirs (getDirname name), Inr m)]" and
    dirs: "m = 0 \<longrightarrow> (\<forall>a\<in>set (ancestors [] (getDirname name)). nodes os1 a = Some Dir)"
    by (simp_all add: m_def)
  from assms(2) mk op have cf: "createFile w os name addFlags =
     (if r < 0 then (Inl (DlAbortEx (EX_FILE_OPEN name (Strerror (errno os2)))),
                     w\<lparr>filename := name, fd := r\<rparr>, os2)
      else (Inr (), w\<lparr>filename := name, fd := r\<rparr>, os2))"
    by (simp add: createFile_def Let_def)
  have os': "os' = os2" and w': "fd w' = r" and res: "res = Inr () \<Longrightarrow> \<not> r < 0"
    using cf assms(1) by (cases "r < 0"; simp)+
  from sys_open_result[OF op] show ?thesis
  proof
    assume f: "r = -1 \<and> nodes os2 = nodes os1 \<and> fdtab os2 = fdtab os1 \<and>
      trace os2 = trace os1 @ [(COpen name ?fl OPEN_MODE, Inl (errno os2))]"
    with t1 have "trace os2 = trace os @ [(CMkdirs (getDirname name), Inr m),
             (COpen name ?fl OPEN_MODE, Inl (errno os2))]" by simp
    then have ne: "new_events os os2 = [(CMkdirs (getDirname name), Inr m),
             (COpen name ?fl OPEN_MODE, Inl (errno os2))]" by (rule new_events_append)
    from f dirs have d2: "m = 0 \<longrightarrow> (\<forall>a\<in>set (ancestors [] (getDirname name)). nodes os2 a = Some Dir)"
      by simp
    from f res have nr: "res \<noteq> Inr ()" by auto
    from ne d2 have "\<exists>m r. new_events os os2 =
            [(CMkdirs (getDirname name), Inr m), (COpen name ?fl OPEN_MODE, r)] \<and>
            (m = 0 \<longrightarrow> (\<forall>a\<in>set (ancestors [] (getDirname name)). nodes os2 a = Some Dir))"
      by blast
    with nr os' show ?thesis by simp
  next
    assume s: "0 \<le> r \<and> trace os2 = trace os1 @ [(COpen name ?fl OPEN_MODE, Inr r)] \<and>
      fd_lookup os2 r = Some \<lparr>ofd_path = name, ofd_pos = 0, ofd_flags = ?fl\<rparr> \<and>
      nodes os2 = (nodes os1)(name := Some (Reg
       (if has_flag ?fl O_TRUNC then []
        else (case nodes os1 name of Some (Reg c) \<Rightarrow> c | _ \<Rightarrow> []))))"
    with flags_create[of addFlags] have n2: "nodes os2 = (nodes os1)(name := Some (Reg []))"
      by simp
    from s t1 have "trace os2 = trace os @ [(CMkdirs (getDirname name), Inr m),
             (COpen name ?fl OPEN_MODE, Inr r)]" by simp
    then have ne: "new_events os os2 = [(CMkdirs (getDirname name), Inr m),
             (COpen name ?fl OPEN_MODE, Inr r)]" by (rule new_events_append)
    have d2: "m = 0 \<longrightarrow> (\<forall>a\<in>set (ancestors [] (getDirname name)). nodes os2 a = Some Dir)"
    proof (intro impI ballI)
      fix a assume "m = 0" and a: "a \<in> set (ancestors [] (getDirname name))"
      with dirs have "nodes os1 a = Some Dir" by simp
      moreover from a have "a \<noteq> name" by (rule ancestors_not_name[OF assms(2)])
      ultimately show "nodes os2 a = Some Dir" using n2 by simp
    qed
    from ne d2 have "\<exists>m r. new_events os os2 =
            [(CMkdirs (getDirname name), Inr m), (COpen name ?fl OPEN_MODE, r)] \<and>
            (m = 0 \<longrightarrow> (\<forall>a\<in>set (ancestors [] (getDirname name)). nodes os2 a = Some Dir))"
      by blast
    moreover from n2 have "nodes os2 name = Some (Reg [])" by simp
    moreover from s w' have "fd_lookup os2 (fd w') =
        Some \<lparr>ofd_path = name, ofd_pos = 0, ofd_flags = ?fl\<rparr>" by simp
    ultimately show ?thesis using os' by simp
  qed
qed

text \<open>Termination of the write loop.\<close>

lemma sys_write_progress:
  "sys_write f buf os = (r, os') \<Longrightarrow> r \<noteq> -1 \<Longrightarrow> buf \<noteq> [] \<Longrightarrow> inject os \<noteq> Short 0 \<Longrightarrow> 0 < r"
  by (auto simp: sys_write_def Let_def min_def
           split: option.splits if_splits outcome.splits node.splits)

lemma write_retry_progress:
  assumes "write_retry f buf os = Some (r, os')" "r \<noteq> -1" "buf \<noteq> []"
    "\<forall>i\<ge>length (trace os). sched os i \<noteq> Short 0"
  shows "0 < r"
proof -
  from write_retry_spec[OF assms(1)] obtain k where
    k: "sys_write f buf (interrupted (CWrite f buf) k os) = (r, os')" by auto
  from assms(4) have "inject (interrupted (CWrite f buf) k os) \<noteq> Short 0"
    by (simp add: inject_def)
  from sys_write_progress[OF k assms(2,3) this] show ?thesis .
qed

lemma write_loop_terminates:
  assumes "\<forall>i\<ge>length (trace os). sched os i \<noteq> Short 0"
    and "\<forall>i. \<exists>j\<ge>i. sched os j \<noteq> Fail EINTR" and "0 \<le> k"
  shows "\<exists>y. write_loop w data k os = Some y"
  using assms
proof (induction "length data - nat k" arbitrary: k os rule: less_induct)
  case less
  show ?case
  proof (cases "nat k < length data")
    case False
    then show ?thesis by (subst write_loop.simps) simp
  next
    case True
    let ?buf = "drop (nat k) data"
    from less.prems(2) obtain j where "length (trace os) \<le> j" "sched os j \<noteq> Fail EINTR"
      by blast
    from write_retry_terminates[OF this(2,1)] obtain r os1 where
      wr: "write_retry (fd w) ?buf os = Some (r, os1)" by fastforce
    show ?thesis
    proof (cases "r = -1")
      case True
      with wr \<open>nat k < length data\<close> show ?thesis by (subst write_loop.simps) simp
    next
      case False
      from write_retry_trace[OF wr] False obtain n res where
        s1: "sched os1 = sched os" and
        t1: "trace os1 = trace os @ replicate n (CWrite (fd w) ?buf, Inl EINTR) @
                          [(CWrite (fd w) ?buf, res)]" and
        r: "0 \<le> r" "nat r \<le> length ?buf" by blast
      from True have "?buf \<noteq> []" by simp
      from write_retry_progress[OF wr False this less.prems(1)] have rpos: "0 < r" .
      with r True less.prems(3) have m: "length data - nat (k + r) < length data - nat k"
        by (auto simp: nat_add_distrib)
      from t1 have "length (trace os) \<le> length (trace os1)" by simp
      with less.prems(1) s1 have p1: "\<forall>i\<ge>length (trace os1). sched os1 i \<noteq> Short 0" by auto
      from less.prems(2) s1 have p2: "\<forall>i. \<exists>j\<ge>i. sched os1 j \<noteq> Fail EINTR" by simp
      from less.prems(3) r have p3: "0 \<le> k + r" by simp
      from less.hyps[OF m p1 p2 p3] obtain y where "write_loop w data (k + r) os1 = Some y"
        by blast
      with wr False True show ?thesis by (subst write_loop.simps) simp
    qed
  qed
qed

text \<open>The loop spins when every transfer moves no byte, or every call is interrupted.\<close>

lemma sys_write_stalled:
  assumes "inject os = Short 0" "open_for_writing os w"
  shows "sys_write (fd w) buf os = (0, sys_ok (CWrite (fd w) buf) 0 os)"
  using assms
  by (auto simp: sys_write_def open_for_writing_def isFile_def Let_def
           split: option.splits node.splits)

lemma write_loop_stalls_aux:
  "write_loop w data k os = Some y \<Longrightarrow>
   \<not> ((\<forall>i\<ge>length (trace os). sched os i = Short 0) \<and> open_for_writing os w \<and>
       0 \<le> k \<and> nat k < length data)"
proof (induct rule: write_loop.raw_induct[rotated 1, consumes 1, case_names step])
  case (step rec w data k os y)
  show ?case
  proof
    assume inv: "(\<forall>i\<ge>length (trace os). sched os i = Short 0) \<and> open_for_writing os w \<and>
       0 \<le> k \<and> nat k < length data"
    let ?buf = "drop (nat k) data"
    let ?os1 = "sys_ok (CWrite (fd w) ?buf) 0 os"
    from inv have "inject os = Short 0" by (simp add: inject_def)
    from sys_write_stalled[OF this, of w ?buf] inv have
      "write_retry (fd w) ?buf os = Some (0, ?os1)"
      by (subst write_retry.simps) simp
    with inv step(2) have rec: "rec w data k ?os1 = Some y" by simp
    from inv have "(\<forall>i\<ge>length (trace ?os1). sched ?os1 i = Short 0) \<and>
       open_for_writing ?os1 w \<and> 0 \<le> k \<and> nat k < length data"
      by (auto simp: open_for_writing_def isFile_def split: option.splits)
    with step(1)[OF rec] show False by blast
  qed
qed

lemma write_loop_stalls:
  assumes "\<forall>i\<ge>length (trace os). sched os i = Short 0" "open_for_writing os w"
    "0 \<le> k" "nat k < length data"
  shows "write_loop w data k os = None"
  using write_loop_stalls_aux[of w data k os] assms
  by (cases "write_loop w data k os") auto

lemma write_retry_spins_aux:
  "write_retry f buf os = Some y \<Longrightarrow>
   \<not> ((\<forall>i\<ge>length (trace os). sched os i = Fail EINTR) \<and>
       (\<exists>d. fd_lookup os f = Some d \<and> writable d))"
proof (induct rule: write_retry.raw_induct[rotated 1, consumes 1, case_names step])
  case (step rec f buf os y)
  show ?case
  proof
    assume inv: "(\<forall>i\<ge>length (trace os). sched os i = Fail EINTR) \<and>
       (\<exists>d. fd_lookup os f = Some d \<and> writable d)"
    let ?os1 = "sys_fail (CWrite f buf) EINTR os"
    from inv have "inject os = Fail EINTR" by (simp add: inject_def)
    with inv have "sys_write f buf os = (-1, ?os1)"
      by (auto simp: sys_write_def Let_def)
    with step(2) have rec: "rec f buf ?os1 = Some y" by simp
    from inv have "(\<forall>i\<ge>length (trace ?os1). sched ?os1 i = Fail EINTR) \<and>
       (\<exists>d. fd_lookup ?os1 f = Some d \<and> writable d)" by simp
    with step(1)[OF rec] show False by blast
  qed
qed

lemma write_retry_spins:
  assumes "\<forall>i\<ge>length (trace os). sched os i = Fail EINTR" "fd_lookup os f = Some d" "writable d"
  shows "write_retry f buf os = None"
  using write_retry_spins_aux[of f buf os] assms
  by (cases "write_retry f buf os") auto

lemma hard_errors_member:
  "(c, Inl e) \<in> set evs \<Longrightarrow> P c \<Longrightarrow> e \<noteq> EINTR \<Longrightarrow> e \<in> set (hard_errors P evs)"
  by (induction P evs rule: hard_errors.induct) auto

lemma writeData_failure:
  assumes "writeData w os data off = Some (res, os')"
    and "(CWrite f buf, Inl e) \<in> set (new_events os os')" and "e \<noteq> EINTR"
  shows "res = Inl (if e = ENOSPC
                    then DownloadFailureException (EX_FILE_WRITE (filename w) (Strerror e))
                    else DlAbortEx (EX_FILE_WRITE (filename w) (Strerror e)))"
proof -
  obtain sr os1 where sk: "seek w os off = (sr, os1)" by (cases "seek w os off")
  from seek_trace[OF sk] obtain r0 where
    t1: "trace os1 = trace os @ [(CLseek (fd w) off, r0)]" by blast
  show ?thesis
  proof (cases sr)
    case (Inl x)
    with sk assms(1) have "os' = os1" by (simp add: writeData_def)
    with t1 have "new_events os os' = [(CLseek (fd w) off, r0)]"
      by (intro new_events_append) simp
    with assms(2) show ?thesis by simp
  next
    case (Inr u)
    with sk assms(1) obtain r where
      wl: "write_loop w data 0 os1 = Some (r, os')" and
      res: "res = (if r < 0
              then (if errno os' = ENOSPC
                    then Inl (DownloadFailureException
                                (EX_FILE_WRITE (filename w) (Strerror (errno os'))))
                    else Inl (DlAbortEx (EX_FILE_WRITE (filename w) (Strerror (errno os')))))
              else Inr ())"
      by (auto simp: writeData_def writeDataInternal_def split: option.splits if_splits)
    from write_loop_trace[OF wl] obtain new where
      t2: "trace os' = trace os1 @ new" and
      d: "r = -1 \<and> hard_errors is_write new = [errno os'] \<or>
          r = int (length data) \<and> hard_errors is_write new = []" by auto
    from t1 t2 have "trace os' = trace os @ ((CLseek (fd w) off, r0) # new)" by simp
    then have "new_events os os' = (CLseek (fd w) off, r0) # new" by (rule new_events_append)
    with assms(2) have "(CWrite f buf, Inl e) \<in> set new" by auto
    from hard_errors_member[OF this _ assms(3), of is_write]
    have "e \<in> set (hard_errors is_write new)" by simp
    with d have "r = -1" "errno os' = e" by auto
    with res show ?thesis by simp
  qed
qed

text \<open>A call failed for good somewhere ahead stops the loop, whatever comes before.\<close>

lemma sys_write_injected_failure:
  "inject os = Fail e \<Longrightarrow> fst (sys_write f buf os) = -1"
  by (auto simp: sys_write_def Let_def split: option.splits)

lemma write_loop_returns_on_failure:
  assumes "sched os j = Fail e" "e \<noteq> EINTR" "length (trace os) \<le> j" "0 \<le> k"
  shows "\<exists>y. write_loop w data k os = Some y"
  using assms
proof (induction "j - length (trace os)" arbitrary: k os rule: less_induct)
  case less
  show ?case
  proof (cases "nat k < length data")
    case False
    then show ?thesis by (subst write_loop.simps) simp
  next
    case True
    let ?buf = "drop (nat k) data"
    let ?c = "CWrite (fd w) ?buf"
    from less.prems(1,2) have "sched os j \<noteq> Fail EINTR" by simp
    from write_retry_terminates[OF this less.prems(3)] obtain r os1 where
      wr: "write_retry (fd w) ?buf os = Some (r, os1)" by fastforce
    show ?thesis
    proof (cases "r = -1")
      case True
      with wr \<open>nat k < length data\<close> show ?thesis by (subst write_loop.simps) simp
    next
      case False
      from write_retry_spec[OF wr] obtain n where
        sw: "sys_write (fd w) ?buf (interrupted ?c n os) = (r, os1)" and
        intr: "\<forall>i<n. sched os (length (trace os) + i) = Fail EINTR" by auto
      from sys_write_trace[OF sw] False have
        s1: "sched os1 = sched os" and
        t1: "length (trace os1) = length (trace os) + n + 1" and r: "0 \<le> r"
        by auto
      have jn: "length (trace os) + n \<le> j"
      proof (rule ccontr)
        assume "\<not> length (trace os) + n \<le> j"
        with less.prems(3) have "j - length (trace os) < n"
          and j: "length (trace os) + (j - length (trace os)) = j" by simp_all
        with intr have "sched os (length (trace os) + (j - length (trace os))) = Fail EINTR"
          by blast
        with j have "sched os j = Fail EINTR" by simp
        with less.prems(1,2) show False by simp
      qed
      have "j \<noteq> length (trace os) + n"
      proof
        assume "j = length (trace os) + n"
        with less.prems(1) have "inject (interrupted ?c n os) = Fail e" by (simp add: inject_def)
        from sys_write_injected_failure[OF this, of "fd w" ?buf] sw False show False by simp
      qed
      with jn t1 have le: "length (trace os1) \<le> j" and
        m: "j - length (trace os1) < j - length (trace os)" by simp_all
      from less.prems(1) s1 have f1: "sched os1 j = Fail e" by simp
      from less.prems(4) r have k1: "0 \<le> k + r" by simp
      from less.hyps[OF m f1 less.prems(2) le k1]
      obtain y where "write_loop w data (k + r) os1 = Some y" by blast
      with wr False True show ?thesis by (subst write_loop.simps) simp
    qed
  qed
qed

lemma writeData_returns_on_failure:
  assumes "sched os j = Fail e" "e \<noteq> EINTR" "length (trace os) < j"
  shows "writeData w os data off \<noteq> None"
proof -
  obtain sr os1 where sk: "seek w os off = (sr, os1)" by (cases "seek w os off")
  from seek_trace[OF sk] assms have "sched os1 j = Fail e" "length (trace os1) \<le> j" by auto
  from write_loop_returns_on_failure[OF this(1) assms(2) this(2), of 0 w data]
  obtain y where "write_loop w data 0 os1 = Some y" by auto
  with sk show ?thesis
    by (cases sr; cases y) (auto simp: writeData_def writeDataInternal_def)
qed

lemma new_events_same [simp]: "new_events os os = []"
  by (simp add: new_events_def)







lemma truncate_drops_failure: "fd w \<noteq> - 1 \<Longrightarrow> fst (truncate w os n) = Inr ()"
  by (simp add: truncate_def split: prod.splits)

text \<open>
  What \<^verbatim>\<open>openExistingFile\<close> opens is not in append mode, nor is what
  \<^verbatim>\<open>createFile\<close> opens unless the extra flags ask for it.
\<close>

lemma opened_without_append:
  assumes "openExistingFile w os name len = (Inr (), w', os')"
  shows "\<forall>d. fd_lookup os' (fd w') = Some d \<longrightarrow> \<not> has_flag (ofd_flags d) O_APPEND"
  using openExistingFile_result[OF assms]
  by (simp add: has_flag_def O_RDWR_def O_BINARY_def O_APPEND_def)

lemma created_without_append:
  assumes "createFile w os name addFlags = (Inr (), w', os')" and "\<not> has_flag addFlags O_APPEND"
  shows "\<forall>d. fd_lookup os' (fd w') = Some d \<longrightarrow> \<not> has_flag (ofd_flags d) O_APPEND"
proof -
  from assms(1) have "name \<noteq> []" by (auto simp: createFile_def)
  from createFile_result[OF assms(1) this] have
    "fd_lookup os' (fd w') =
       Some \<lparr>ofd_path = name, ofd_pos = 0,
             ofd_flags = O_CREAT OR O_RDWR OR O_TRUNC OR O_BINARY OR addFlags\<rparr>" by simp
  moreover from assms(2) have
    "(O_CREAT OR O_RDWR OR O_TRUNC OR O_BINARY OR addFlags) AND O_APPEND = 0"
    by (simp add: has_flag_def O_CREAT_def O_RDWR_def O_TRUNC_def O_BINARY_def O_APPEND_def
          bit.conj_disj_distrib2)
  ultimately show ?thesis by (simp add: has_flag_def)
qed

text \<open>The platform of the short writes moves a byte with every transfer and stops
  interrupting.\<close>

lemma progressing_short_writes: "progressing os_short_writes"
proof -
  have "sched_of [Ok, Short 1, Fail EINTR, Short 1] i \<noteq> Short 0" for i
  proof -
    have "i = 0 \<or> i = 1 \<or> i = 2 \<or> i = 3 \<or> 4 \<le> i" by arith
    then show ?thesis by (auto simp: sched_of_def)
  qed
  then show ?thesis by (simp add: progressing_def os_short_writes_def os_open_def)
qed

lemma fair_short_writes: "fair_interrupts os_short_writes"
proof -
  have "\<exists>j\<ge>i. sched_of [Ok, Short 1, Fail EINTR, Short 1] j \<noteq> Fail EINTR" for i
    by (intro exI[of _ "i + 4"]) (simp add: sched_of_def)
  then show ?thesis by (simp add: fair_interrupts_def os_short_writes_def os_open_def)
qed

lemma writeData_returns:
  assumes "progressing os" "fair_interrupts os"
  shows "writeData w os data off \<noteq> None"
proof -
  obtain sr os1 where sk: "seek w os off = (sr, os1)" by (cases "seek w os off")
  from seek_trace[OF sk] obtain r0 where
    s1: "sched os1 = sched os" and t1: "trace os1 = trace os @ [(CLseek (fd w) off, r0)]"
    by blast
  from assms(1) s1 t1 have p: "\<forall>i\<ge>length (trace os1). sched os1 i \<noteq> Short 0"
    by (simp add: progressing_def)
  from assms(2) s1 have f: "\<forall>i. \<exists>j\<ge>i. sched os1 j \<noteq> Fail EINTR"
    by (simp add: fair_interrupts_def)
  from write_loop_terminates[OF p f, of 0 w data]
  obtain y where "write_loop w data 0 os1 = Some y" by auto
  with sk show ?thesis
    by (cases sr; cases y) (auto simp: writeData_def writeDataInternal_def)
qed

text \<open>
  \<^verbatim>\<open>seek\<close> throws exactly when \<^verbatim>\<open>lseek\<close> failed and the offset is not -1; when it
  returns normally \<^verbatim>\<open>lseek\<close> has returned the offset, or has failed at offset -1.
\<close>

lemma seek_result:
  "seek w os off = (sr, os1) \<Longrightarrow>
   sched os1 = sched os \<and>
   ((\<exists>e. off \<noteq> - 1 \<and> sr = Inl (DlAbortEx (EX_FILE_SEEK (filename w) (Strerror e))) \<and>
         trace os1 = trace os @ [(CLseek (fd w) off, Inl e)]) \<or>
    (\<exists>r0. sr = Inr () \<and> (r0 = Inr off \<or> off = - 1 \<and> (\<exists>e0. r0 = Inl e0)) \<and>
          trace os1 = trace os @ [(CLseek (fd w) off, r0)]))"
  by (auto simp: seek_def sys_lseek_def Let_def split: option.splits if_splits outcome.splits)

section \<open>The properties\<close>

text \<open>
  C1, as the code has it. On a descriptor opened without \<^verbatim>\<open>O_APPEND\<close> and for an
  offset that is not negative: when \<^verbatim>\<open>writeData(data, L, offset)\<close> returns normally
  and the \<^verbatim>\<open>readData(buf, L, offset)\<close> that follows returns normally, the count
  returned is the number of bytes the one \<^verbatim>\<open>read\<close> call delivered, and the buffer
  holds that many of the bytes written, from the first; when the platform does not cut the
  \<^verbatim>\<open>read\<close> short these are all of them.
\<close>

theorem write_then_read:
  assumes noapp: "\<forall>d. fd_lookup os (fd w) = Some d \<longrightarrow> \<not> has_flag (ofd_flags d) O_APPEND"
    and off: "0 \<le> off"
    and wr: "writeData w os data off = Some (Inr (), os1)"
    and rd: "readData w os1 (length data) off = Some (Inr (n, bs), os2)"
  shows "bs = take (granted (last_outcome os2) (length data)) data \<and> n = int (length bs)"
proof -
  from wr obtain osa r where
    sk: "seek w os off = (Inr (), osa)" and
    wl: "write_loop w data 0 osa = Some (r, os1)" and r: "\<not> r < 0"
    by (auto simp: writeData_def writeDataInternal_def
             split: prod.splits sum.splits option.splits if_splits)
  from seek_effect[OF sk off] obtain d where
    d: "fd_lookup os (fd w) = Some d" and
    da: "fd_lookup osa (fd w) = Some (d\<lparr>ofd_pos := nat off\<rparr>)" by blast
  from noapp d have na: "\<not> has_flag (ofd_flags (d\<lparr>ofd_pos := nat off\<rparr>)) O_APPEND" by simp
  from seek_trace[OF sk] have nsa: "nodes osa = nodes os" by simp
  from write_loop_effect[OF wl] r da na have
    n1: "nodes os1 = put (ofd_path d) (nat off) data (nodes osa)" and
    d1: "fd_lookup os1 (fd w) = Some (d\<lparr>ofd_pos := nat off + length data\<rparr>)" and
    reg: "data \<noteq> [] \<longrightarrow> (\<exists>c. nodes osa (ofd_path d) = Some (Reg c))"
    by auto
  from rd obtain osb where
    sk2: "seek w os1 off = (Inr (), osb)" and
    rl: "readDataInternal w osb (length data) = Some (n, bs, os2)" and n: "\<not> n < 0"
    by (auto simp: readData_def split: prod.splits sum.splits option.splits if_splits)
  from seek_effect[OF sk2 off] d1 have
    db: "fd_lookup osb (fd w) = Some (d\<lparr>ofd_pos := nat off\<rparr>)" by auto
  from seek_trace[OF sk2] have nsb: "nodes osb = nodes os1" by simp
  from n have "n \<noteq> -1" by auto
  from readDataInternal_effect[OF rl this db] obtain c' k where
    c': "nodes osb (ofd_path d) = Some (Reg c')" and
    bs: "bs = take (granted (sched osb (length (trace osb) + k)) (length data)) (drop (nat off) c')" and
    nl: "n = int (length bs)" and
    s2: "sched os2 = sched osb" and
    t2: "trace os2 = trace osb @ replicate k (CRead (fd w) (length data), Inl EINTR) @
                      [(CRead (fd w) (length data), Inr n)]"
    by auto
  from t2 s2 have lo: "last_outcome os2 = sched osb (length (trace osb) + k)"
    by (simp add: last_outcome_def)
  show ?thesis
  proof (cases "data = []")
    case True
    have "granted (sched osb (length (trace osb) + k)) 0 = 0"
      using granted_le[of "sched osb (length (trace osb) + k)" 0] by simp
    with True bs nl show ?thesis by simp
  next
    case False
    with reg obtain c where "nodes osa (ofd_path d) = Some (Reg c)" by blast
    with n1 False have "nodes os1 (ofd_path d) = Some (Reg (overwrite (nat off) data c))"
      by (simp add: put_def)
    with c' nsb have "c' = overwrite (nat off) data c" by simp
    then have "drop (nat off) c' = data @ drop (nat off + length data) c"
      by (simp add: drop_overwrite)
    with bs lo granted_le[of "last_outcome os2" "length data"] nl show ?thesis by simp
  qed
qed

theorem write_then_read_witness:
  "map_option ofd_flags (fd_lookup os_short_writes (fd w_f)) = Some O_RDWR \<and>
   map_option fst (writeData w_f os_short_writes [0x61, 0x62, 0x63] 0) = Some (Inr ()) \<and>
   map_option fst (readData w_f (snd (the (writeData w_f os_short_writes [0x61, 0x62, 0x63] 0)))
                3 0) = Some (Inr (3, [0x61, 0x62, 0x63]))"
proof -
  define os1 where "os1 = snd (the (writeData w_f os_short_writes [0x61, 0x62, 0x63] 0))"
  define os2 where "os2 = snd (the (readData w_f os1 3 0))"
  have fl: "map_option ofd_flags (fd_lookup os_short_writes (fd w_f)) = Some O_RDWR"
    by (simp add: os_short_writes_def eval_defs)
  then have na: "\<forall>d. fd_lookup os_short_writes (fd w_f) = Some d \<longrightarrow>
                  \<not> has_flag (ofd_flags d) O_APPEND"
    by (auto simp: has_flag_def O_RDWR_def O_APPEND_def)
  have w: "map_option fst (writeData w_f os_short_writes [0x61, 0x62, 0x63] 0) = Some (Inr ())"
    by (simp add: os_short_writes_def eval_defs write_loop.simps write_retry.simps)
  then have wr: "writeData w_f os_short_writes [0x61, 0x62, 0x63] 0 = Some (Inr (), os1)"
    by (cases "writeData w_f os_short_writes [0x61, 0x62, 0x63] 0") (auto simp: os1_def)
  have r: "map_option fst (readData w_f os1 3 0) = Some (Inr (3, [0x61, 0x62, 0x63]))"
    by (simp add: os1_def os_short_writes_def eval_defs write_loop.simps write_retry.simps
          readDataInternal.simps)
  then have rd3: "readData w_f os1 3 0 = Some (Inr (3, [0x61, 0x62, 0x63]), os2)"
    by (cases "readData w_f os1 3 0") (auto simp: os2_def)
  have len: "length [0x61, 0x62, 0x63 :: byte] = 3" by simp
  have rd: "readData w_f os1 (length [0x61, 0x62, 0x63 :: byte]) 0 =
              Some (Inr (3, [0x61, 0x62, 0x63]), os2)"
    using rd3 by (simp only: len)
  from write_then_read[OF na _ wr rd] fl w r show ?thesis
    by (simp add: os1_def)
qed

text \<open>
  The round trip fails on a file that \<^verbatim>\<open>createFile\<close> opened with the extra flag
  \<^verbatim>\<open>O_APPEND\<close>: the second write at offset 0 lands at the end of the file, and the
  read at offset 0 returns the byte of the first write. It fails as well when the platform
  cuts the single \<^verbatim>\<open>read\<close> short: one byte comes back where three were written.
\<close>

theorem append_counterexample:
  "fst (createFile AbstractDiskWriter (os_empty (sched_of [])) ''f'' O_APPEND) = Inr () \<and>
   map_option fst (writeData w_app os_app0 [0x61, 0x62] 0) = Some (Inr ()) \<and>
   map_option fst (writeData w_app os_app1 [0x63] 0) = Some (Inr ()) \<and>
   map_option fst (readData w_app os_app2 1 0) = Some (Inr (1, [0x61])) \<and>
   fst (createFile AbstractDiskWriter (os_empty (sched_of [Ok, Ok, Ok, Ok, Ok, Short 1])) ''f'' 0)
     = Inr () \<and>
   map_option fst (writeData w_sr os_sr0 [0x61, 0x62, 0x63] 0) = Some (Inr ()) \<and>
   map_option fst (readData w_sr os_sr1 3 0) = Some (Inr (1, [0x61]))"
  by (simp add: w_app_def os_app0_def os_app1_def os_app2_def w_sr_def os_sr0_def os_sr1_def
       eval_defs eval_defs2 write_loop.simps write_retry.simps readDataInternal.simps)

text \<open>
  C2. On an object that was never opened, \<^verbatim>\<open>seek(-1)\<close> returns normally: \<^verbatim>\<open>lseek\<close>
  answers the bad descriptor with -1, which is the offset asked for. So does
  \<^verbatim>\<open>writeData\<close> of no bytes at offset -1.
\<close>

theorem unopened_seek_minus_one:
  "fst (seek AbstractDiskWriter (os_empty (sched_of [])) (- 1)) = Inr () \<and>
   map_option fst (writeData AbstractDiskWriter (os_empty (sched_of [])) [] (- 1)) = Some (Inr ())"
  by (simp add: eval_defs eval_defs2 write_loop.simps)

text \<open>
  C3. When a \<^verbatim>\<open>write\<close> call of \<^verbatim>\<open>writeData\<close> fails for another reason than a
  signal, \<^verbatim>\<open>writeData\<close> throws: \<^verbatim>\<open>DownloadFailureException\<close> when the error number
  is \<^verbatim>\<open>ENOSPC\<close>, \<^verbatim>\<open>DlAbortEx\<close> with the write message otherwise; the two are
  different exceptions. And \<^verbatim>\<open>writeData\<close> does return on a platform that fails some
  later call for good.
\<close>

theorem writeData_error_kind:
  "(\<forall>res os' f buf e.
      writeData w os data off = Some (res, os') \<longrightarrow>
      (CWrite f buf, Inl e) \<in> set (new_events os os') \<longrightarrow> e \<noteq> EINTR \<longrightarrow>
      res = Inl (if e = ENOSPC
                 then DownloadFailureException (EX_FILE_WRITE (filename w) (Strerror e))
                 else DlAbortEx (EX_FILE_WRITE (filename w) (Strerror e)))) \<and>
   (\<forall>j e. length (trace os) < j \<longrightarrow> sched os j = Fail e \<longrightarrow> e \<noteq> EINTR \<longrightarrow>
      writeData w os data off \<noteq> None) \<and>
   (\<forall>m m'. DownloadFailureException m \<noteq> DlAbortEx m')"
proof (intro conjI allI impI)
  fix res os' f buf e
  assume "writeData w os data off = Some (res, os')"
    "(CWrite f buf, Inl e) \<in> set (new_events os os')" "e \<noteq> EINTR"
  then show "res = Inl (if e = ENOSPC
                 then DownloadFailureException (EX_FILE_WRITE (filename w) (Strerror e))
                 else DlAbortEx (EX_FILE_WRITE (filename w) (Strerror e)))"
    by (rule writeData_failure)
next
  fix j e
  assume "length (trace os) < j" "sched os j = Fail e" "e \<noteq> EINTR"
  then show "writeData w os data off \<noteq> None"
    by (intro writeData_returns_on_failure)
next
  fix m m'
  show "DownloadFailureException m \<noteq> DlAbortEx m'" by simp
qed

theorem writeData_error_kind_witness:
  "sched os_nospc 2 = Fail ENOSPC \<and>
   map_option fst (writeData w_f os_nospc [0x61, 0x62, 0x63] 0) =
     Some (Inl (DownloadFailureException (EX_FILE_WRITE ''f'' (Strerror ENOSPC)))) \<and>
   new_events os_nospc (snd (the (writeData w_f os_nospc [0x61, 0x62, 0x63] 0))) =
     [(CLseek 0 0, Inr 0), (CWrite 0 [0x61, 0x62, 0x63], Inr 1), (CWrite 0 [0x62, 0x63], Inl ENOSPC)] \<and>
   map_option fst (writeData w_f os_eacces [0x61] 0) =
     Some (Inl (DlAbortEx (EX_FILE_WRITE ''f'' (Strerror EACCES))))"
proof -
  have a: "sched os_nospc 2 = Fail ENOSPC" "length (trace os_nospc) < 2"
    by (simp_all add: os_nospc_def eval_defs)
  have b: "map_option fst (writeData w_f os_nospc [0x61, 0x62, 0x63] 0) =
     Some (Inl (DownloadFailureException (EX_FILE_WRITE ''f'' (Strerror ENOSPC))))"
   "new_events os_nospc (snd (the (writeData w_f os_nospc [0x61, 0x62, 0x63] 0))) =
     [(CLseek 0 0, Inr 0), (CWrite 0 [0x61, 0x62, 0x63], Inr 1), (CWrite 0 [0x62, 0x63], Inl ENOSPC)]"
   "map_option fst (writeData w_f os_eacces [0x61] 0) =
     Some (Inl (DlAbortEx (EX_FILE_WRITE ''f'' (Strerror EACCES))))"
    by (simp_all add: os_nospc_def os_eacces_def eval_defs write_loop.simps write_retry.simps)
  from writeData_error_kind[of w_f os_nospc "[0x61, 0x62, 0x63]" 0] a
  have "writeData w_f os_nospc [0x61, 0x62, 0x63] 0 \<noteq> None" by blast
  with a(1) b show ?thesis by blast
qed

text \<open>
  C4. \<^verbatim>\<open>writeData\<close> returns normally only when the \<^verbatim>\<open>write\<close> calls it made have
  together transferred exactly the bytes of the buffer, in order, whatever the platform
  did to the single calls: cut them short, interrupted them, or let them through. And it
  does return when every transfer moves at least one byte and no run of interruptions
  is endless.
\<close>

theorem writeData_writes_all:
  "(\<forall>os'. writeData w os data off = Some (Inr (), os') \<longrightarrow>
          written_bytes (new_events os os') = data) \<and>
   (progressing os \<and> fair_interrupts os \<longrightarrow> writeData w os data off \<noteq> None)"
proof (intro conjI allI impI)
  fix os'
  assume ok: "writeData w os data off = Some (Inr (), os')"
  then obtain os1 r where
    sk: "seek w os off = (Inr (), os1)" and
    wl: "write_loop w data 0 os1 = Some (r, os')" and r: "\<not> r < 0"
    by (auto simp: writeData_def writeDataInternal_def
             split: prod.splits sum.splits option.splits if_splits)
  from seek_trace[OF sk] obtain r0 where
    t1: "trace os1 = trace os @ [(CLseek (fd w) off, r0)]" by blast
  from write_loop_trace[OF wl] r obtain new where
    t2: "trace os' = trace os1 @ new" and wb: "written_bytes new = data" by auto
  from t1 t2 have "trace os' = trace os @ ((CLseek (fd w) off, r0) # new)" by simp
  then have "new_events os os' = (CLseek (fd w) off, r0) # new" by (rule new_events_append)
  with wb show "written_bytes (new_events os os') = data" by (cases r0) simp_all
next
  assume "progressing os \<and> fair_interrupts os"
  then show "writeData w os data off \<noteq> None" by (intro writeData_returns) simp_all
qed

theorem writeData_writes_all_witness:
  "progressing os_short_writes \<and> fair_interrupts os_short_writes \<and>
   map_option fst (writeData w_f os_short_writes [0x61, 0x62, 0x63] 0) = Some (Inr ()) \<and>
   new_events os_short_writes (snd (the (writeData w_f os_short_writes [0x61, 0x62, 0x63] 0))) =
     [(CLseek 0 0, Inr 0), (CWrite 0 [0x61, 0x62, 0x63], Inr 1),
      (CWrite 0 [0x62, 0x63], Inl EINTR), (CWrite 0 [0x62, 0x63], Inr 1),
      (CWrite 0 [0x63], Inr 1)] \<and>
   written_bytes (new_events os_short_writes
     (snd (the (writeData w_f os_short_writes [0x61, 0x62, 0x63] 0)))) = [0x61, 0x62, 0x63]"
proof -
  have ok: "map_option fst (writeData w_f os_short_writes [0x61, 0x62, 0x63] 0) = Some (Inr ())"
    "new_events os_short_writes (snd (the (writeData w_f os_short_writes [0x61, 0x62, 0x63] 0))) =
     [(CLseek 0 0, Inr 0), (CWrite 0 [0x61, 0x62, 0x63], Inr 1),
      (CWrite 0 [0x62, 0x63], Inl EINTR), (CWrite 0 [0x62, 0x63], Inr 1),
      (CWrite 0 [0x63], Inr 1)]"
    by (simp_all add: os_short_writes_def eval_defs write_loop.simps write_retry.simps)
  define os' where "os' = snd (the (writeData w_f os_short_writes [0x61, 0x62, 0x63] 0))"
  from ok(1) have wr: "writeData w_f os_short_writes [0x61, 0x62, 0x63] 0 = Some (Inr (), os')"
    by (cases "writeData w_f os_short_writes [0x61, 0x62, 0x63] 0") (auto simp: os'_def)
  from writeData_writes_all[of w_f os_short_writes "[0x61, 0x62, 0x63]" 0,
      THEN conjunct1, rule_format, OF wr]
  have "written_bytes (new_events os_short_writes os') = [0x61, 0x62, 0x63]" .
  with ok progressing_short_writes fair_short_writes show ?thesis
    unfolding os'_def by blast
qed

text \<open>
  C5. When some call after the \<^verbatim>\<open>lseek\<close> is not interrupted, \<^verbatim>\<open>readData\<close>
  returns. Either the \<^verbatim>\<open>lseek\<close> has failed, at an offset other than -1: then it is
  the only call made and the seek error is thrown with its error number. Or the
  \<^verbatim>\<open>lseek\<close> has returned the offset (or failed at offset -1): then the calls made
  after it are the \<^verbatim>\<open>read\<close> calls that a signal interrupted and exactly one further
  \<^verbatim>\<open>read\<close>. If that one fails, the read error is thrown with its error number;
  otherwise its count is returned with the bytes read, be they fewer than \<open>len\<close> or none.
\<close>

theorem readData_single_read:
  assumes "sched os j \<noteq> Fail EINTR" and "length (trace os) < j"
  shows "\<exists>res os'. readData w os len off = Some (res, os') \<and>
     ((\<exists>e. off \<noteq> - 1 \<and>
           res = Inl (DlAbortEx (EX_FILE_SEEK (filename w) (Strerror e))) \<and>
           new_events os os' = [(CLseek (fd w) off, Inl e)]) \<or>
      (\<exists>r0 k e. (r0 = Inr off \<or> off = - 1 \<and> (\<exists>e0. r0 = Inl e0)) \<and> e \<noteq> EINTR \<and>
           res = Inl (DlAbortEx (EX_FILE_READ (filename w) (Strerror e))) \<and>
           new_events os os' = (CLseek (fd w) off, r0) #
             replicate k (CRead (fd w) len, Inl EINTR) @ [(CRead (fd w) len, Inl e)]) \<or>
      (\<exists>r0 k bs. (r0 = Inr off \<or> off = - 1 \<and> (\<exists>e0. r0 = Inl e0)) \<and>
           length bs \<le> len \<and> res = Inr (int (length bs), bs) \<and>
           new_events os os' = (CLseek (fd w) off, r0) #
             replicate k (CRead (fd w) len, Inl EINTR) @
             [(CRead (fd w) len, Inr (int (length bs)))]))"
proof -
  obtain sr os1 where sk: "seek w os off = (sr, os1)" by (cases "seek w os off")
  from seek_result[OF sk] have s1: "sched os1 = sched os" by simp
  from seek_result[OF sk] have
    "(\<exists>e. off \<noteq> - 1 \<and> sr = Inl (DlAbortEx (EX_FILE_SEEK (filename w) (Strerror e))) \<and>
         trace os1 = trace os @ [(CLseek (fd w) off, Inl e)]) \<or>
     (\<exists>r0. sr = Inr () \<and> (r0 = Inr off \<or> off = - 1 \<and> (\<exists>e0. r0 = Inl e0)) \<and>
          trace os1 = trace os @ [(CLseek (fd w) off, r0)])" by simp
  then show ?thesis
  proof
    assume "\<exists>e. off \<noteq> - 1 \<and> sr = Inl (DlAbortEx (EX_FILE_SEEK (filename w) (Strerror e))) \<and>
         trace os1 = trace os @ [(CLseek (fd w) off, Inl e)]"
    then obtain e where e: "off \<noteq> - 1"
      "sr = Inl (DlAbortEx (EX_FILE_SEEK (filename w) (Strerror e)))"
      "trace os1 = trace os @ [(CLseek (fd w) off, Inl e)]" by blast
    from sk e(2) have "readData w os len off =
        Some (Inl (DlAbortEx (EX_FILE_SEEK (filename w) (Strerror e))), os1)"
      by (simp add: readData_def)
    moreover from e(3) have "new_events os os1 = [(CLseek (fd w) off, Inl e)]"
      by (rule new_events_append)
    ultimately show ?thesis using e(1) by blast
  next
    assume "\<exists>r0. sr = Inr () \<and> (r0 = Inr off \<or> off = - 1 \<and> (\<exists>e0. r0 = Inl e0)) \<and>
          trace os1 = trace os @ [(CLseek (fd w) off, r0)]"
    then obtain r0 where Inr: "sr = Inr ()" and
      r0: "r0 = Inr off \<or> off = - 1 \<and> (\<exists>e0. r0 = Inl e0)" and
      t1: "trace os1 = trace os @ [(CLseek (fd w) off, r0)]" by blast
    from assms s1 t1 have "sched os1 j \<noteq> Fail EINTR" "length (trace os1) \<le> j" by auto
    from readDataInternal_terminates[OF this] obtain r bs os' where
      rl: "readDataInternal w os1 len = Some (r, bs, os')"
      by (metis prod_cases3)
    from readDataInternal_trace[OF rl] obtain k where
      k: "(r = -1 \<and> bs = [] \<and> errno os' \<noteq> EINTR \<and>
          trace os' = trace os1 @ replicate k (CRead (fd w) len, Inl EINTR) @
                        [(CRead (fd w) len, Inl (errno os'))]) \<or>
        (r = int (length bs) \<and> length bs \<le> len \<and>
          trace os' = trace os1 @ replicate k (CRead (fd w) len, Inl EINTR) @
                        [(CRead (fd w) len, Inr r)])" by blast
    then show ?thesis
    proof
      assume a: "r = -1 \<and> bs = [] \<and> errno os' \<noteq> EINTR \<and>
          trace os' = trace os1 @ replicate k (CRead (fd w) len, Inl EINTR) @
                        [(CRead (fd w) len, Inl (errno os'))]"
      with sk Inr rl have
        "readData w os len off =
           Some (Inl (DlAbortEx (EX_FILE_READ (filename w) (Strerror (errno os')))), os')"
        by (simp add: readData_def)
      moreover from a t1 have "new_events os os' = (CLseek (fd w) off, r0) #
             replicate k (CRead (fd w) len, Inl EINTR) @ [(CRead (fd w) len, Inl (errno os'))]"
        by (intro new_events_append) simp
      ultimately show ?thesis using a r0 by blast
    next
      assume a: "r = int (length bs) \<and> length bs \<le> len \<and>
          trace os' = trace os1 @ replicate k (CRead (fd w) len, Inl EINTR) @
                        [(CRead (fd w) len, Inr r)]"
      with sk Inr rl have
        "readData w os len off = Some (Inr (int (length bs), bs), os')"
        by (simp add: readData_def)
      moreover from a t1 have "new_events os os' = (CLseek (fd w) off, r0) #
             replicate k (CRead (fd w) len, Inl EINTR) @
             [(CRead (fd w) len, Inr (int (length bs)))]"
        by (intro new_events_append) simp
      ultimately show ?thesis using a r0 by blast
    qed
  qed
qed

theorem readData_single_read_witness:
  "sched os_hello 2 \<noteq> Fail EINTR \<and> length (trace os_hello) < 2 \<and>
   map_option fst (readData w_f os_hello 5 3) = Some (Inr (2, [0x6c, 0x6f])) \<and>
   new_events os_hello (snd (the (readData w_f os_hello 5 3))) =
     [(CLseek 0 3, Inr 3), (CRead 0 5, Inl EINTR), (CRead 0 5, Inr 2)] \<and>
   map_option fst (readData w_f os_hello_eio 5 3) =
     Some (Inl (DlAbortEx (EX_FILE_SEEK ''f'' (Strerror EIO)))) \<and>
   new_events os_hello_eio (snd (the (readData w_f os_hello_eio 5 3))) = [(CLseek 0 3, Inl EIO)]"
proof -
  have a: "sched os_hello 2 \<noteq> Fail EINTR" "length (trace os_hello) < 2"
    by (simp_all add: os_hello_def eval_defs)
  have b: "map_option fst (readData w_f os_hello 5 3) = Some (Inr (2, [0x6c, 0x6f]))"
    "new_events os_hello (snd (the (readData w_f os_hello 5 3))) =
     [(CLseek 0 3, Inr 3), (CRead 0 5, Inl EINTR), (CRead 0 5, Inr 2)]"
    "map_option fst (readData w_f os_hello_eio 5 3) =
     Some (Inl (DlAbortEx (EX_FILE_SEEK ''f'' (Strerror EIO))))"
    "new_events os_hello_eio (snd (the (readData w_f os_hello_eio 5 3))) = [(CLseek 0 3, Inl EIO)]"
    by (simp_all add: os_hello_def os_hello_eio_def eval_defs readDataInternal.simps)
  from readData_single_read[OF a, of w_f 5 3]
  have "readData w_f os_hello 5 3 \<noteq> None" by blast
  with a b show ?thesis by blast
qed

text \<open>
  C6. \<^verbatim>\<open>openFile\<close> on a path that exists is \<^verbatim>\<open>openExistingFile\<close>, which leaves
  the file system as it is and, when it succeeds, has made one \<^verbatim>\<open>open\<close> call
  with the flags \<^verbatim>\<open>O_RDWR|O_BINARY\<close>. \<^verbatim>\<open>createFile\<close> calls the directory utility on
  the parent directory, after whose success every ancestor directory exists, and then
  \<^verbatim>\<open>open\<close> with \<^verbatim>\<open>O_CREAT|O_RDWR|O_TRUNC|O_BINARY\<close> and the extra flags; when it
  succeeds the file is empty.
\<close>

theorem open_versus_create:
  "(exists_path os name \<longrightarrow>
      openFile initAndOpenFile w os name len = openExistingFile w os name len) \<and>
   (case openExistingFile w os name len of (res, w', os') \<Rightarrow>
      nodes os' = nodes os \<and>
      (res = Inr () \<longrightarrow>
         new_events os os' = [(COpen name (O_RDWR OR O_BINARY) OPEN_MODE, Inr (fd w'))] \<and>
         fd_lookup os' (fd w') =
           Some \<lparr>ofd_path = name, ofd_pos = 0, ofd_flags = O_RDWR OR O_BINARY\<rparr>)) \<and>
   (name \<noteq> [] \<longrightarrow>
      (case createFile w os name addFlags of (res, w', os') \<Rightarrow>
         (\<exists>m r. new_events os os' =
            [(CMkdirs (getDirname name), Inr m),
             (COpen name (O_CREAT OR O_RDWR OR O_TRUNC OR O_BINARY OR addFlags) OPEN_MODE, r)] \<and>
            (m = 0 \<longrightarrow> (\<forall>a\<in>set (ancestors [] (getDirname name)). nodes os' a = Some Dir))) \<and>
         (res = Inr () \<longrightarrow>
            nodes os' name = Some (Reg []) \<and>
            fd_lookup os' (fd w') =
              Some \<lparr>ofd_path = name, ofd_pos = 0,
                    ofd_flags = O_CREAT OR O_RDWR OR O_TRUNC OR O_BINARY OR addFlags\<rparr>)))"
proof (intro conjI impI)
  assume "exists_path os name"
  then show "openFile initAndOpenFile w os name len = openExistingFile w os name len"
    by (simp add: openFile_def)
next
  show "case openExistingFile w os name len of (res, w', os') \<Rightarrow>
      nodes os' = nodes os \<and>
      (res = Inr () \<longrightarrow>
         new_events os os' = [(COpen name (O_RDWR OR O_BINARY) OPEN_MODE, Inr (fd w'))] \<and>
         fd_lookup os' (fd w') =
           Some \<lparr>ofd_path = name, ofd_pos = 0, ofd_flags = O_RDWR OR O_BINARY\<rparr>)"
    using openExistingFile_result[of w os name len]
    by (cases "openExistingFile w os name len") simp
next
  assume "name \<noteq> []"
  then show "case createFile w os name addFlags of (res, w', os') \<Rightarrow>
         (\<exists>m r. new_events os os' =
            [(CMkdirs (getDirname name), Inr m),
             (COpen name (O_CREAT OR O_RDWR OR O_TRUNC OR O_BINARY OR addFlags) OPEN_MODE, r)] \<and>
            (m = 0 \<longrightarrow> (\<forall>a\<in>set (ancestors [] (getDirname name)). nodes os' a = Some Dir))) \<and>
         (res = Inr () \<longrightarrow>
            nodes os' name = Some (Reg []) \<and>
            fd_lookup os' (fd w') =
              Some \<lparr>ofd_path = name, ofd_pos = 0,
                    ofd_flags = O_CREAT OR O_RDWR OR O_TRUNC OR O_BINARY OR addFlags\<rparr>)"
    using createFile_result[of w os name addFlags]
    by (cases "createFile w os name addFlags") simp
qed

theorem open_versus_create_witness:
  "exists_path os_stored ''f'' \<and>
   fst (openFile initAndOpenFile_plain AbstractDiskWriter os_stored ''f'' 5) = Inr () \<and>
   nodes (snd (snd (openFile initAndOpenFile_plain AbstractDiskWriter os_stored ''f'' 5))) ''f'' =
     Some (Reg [0x68, 0x65, 0x6c, 0x6c, 0x6f]) \<and>
   fst (createFile AbstractDiskWriter os_stored ''f'' 0) = Inr () \<and>
   nodes (snd (snd (createFile AbstractDiskWriter os_stored ''f'' 0))) ''f'' = Some (Reg []) \<and>
   fst (createFile AbstractDiskWriter os_stored ''a/b/out.bin'' 0) = Inr () \<and>
   nodes (snd (snd (createFile AbstractDiskWriter os_stored ''a/b/out.bin'' 0))) ''a/b'' = Some Dir"
  using open_versus_create[where os = os_stored and name = "''f''" and w = AbstractDiskWriter
      and initAndOpenFile = initAndOpenFile_plain and len = 5 and addFlags = 0]
    open_versus_create[where os = os_stored and name = "''a/b/out.bin''" and w = AbstractDiskWriter
      and initAndOpenFile = initAndOpenFile_plain and len = 5 and addFlags = 0]
  by (simp add: openFile_def openExistingFile_def exists_path_def os_stored_def
        eval_defs eval_defs2)

text \<open>
  C7. On an object whose descriptor is set, \<^verbatim>\<open>size\<close> makes one \<^verbatim>\<open>fstat\<close> call and
  never throws: it returns 0 when the call fails, whatever its struct held, and the
  length of the file when it succeeds.
\<close>

theorem size_file_degrades:
  assumes "fd w \<noteq> -1"
  shows "\<exists>n r os'. size_file w os fileStat = (Inr n, os') \<and>
     new_events os os' = [(CFstat (fd w), r)] \<and>
     (case r of
        Inl e \<Rightarrow> n = 0
      | Inr v \<Rightarrow> \<exists>d c. fd_lookup os (fd w) = Some d \<and> nodes os (ofd_path d) = Some (Reg c) \<and>
                       n = length c)"
proof -
  obtain r st os' where fs: "sys_fstat (fd w) fileStat os = (r, st, os')"
    by (cases "sys_fstat (fd w) fileStat os") auto
  from sys_fstat_result[OF fs] show ?thesis
  proof
    assume a: "r = -1 \<and> st = fileStat \<and>
      trace os' = trace os @ [(CFstat (fd w), Inl (errno os'))]"
    with fs assms have "size_file w os fileStat = (Inr 0, os')" by (simp add: size_file_def)
    moreover from a have "new_events os os' = [(CFstat (fd w), Inl (errno os'))]"
      by (intro new_events_append) simp
    ultimately show ?thesis by simp
  next
    assume a: "r = 0 \<and> trace os' = trace os @ [(CFstat (fd w), Inr 0)] \<and>
      (\<exists>d c. fd_lookup os (fd w) = Some d \<and> nodes os (ofd_path d) = Some (Reg c) \<and>
             st = int (length c))"
    then obtain d c where dc: "fd_lookup os (fd w) = Some d"
      "nodes os (ofd_path d) = Some (Reg c)" "st = int (length c)" by blast
    with a fs assms have "size_file w os fileStat = (Inr (length c), os')"
      by (simp add: size_file_def)
    moreover from a have "new_events os os' = [(CFstat (fd w), Inr 0)]"
      by (intro new_events_append) simp
    ultimately show ?thesis using dc by simp
  qed
qed

theorem size_file_degrades_witness:
  "fd w_f \<noteq> -1 \<and> fst (size_file w_f os_hello 4711) = Inr 5 \<and>
   fst (sys_fstat 0 4711 os_hello_eio) = - 1 \<and> fst (snd (sys_fstat 0 4711 os_hello_eio)) = 4711 \<and>
   fst (size_file w_f os_hello_eio 4711) = Inr 0 \<and>
   new_events os_hello_eio (snd (size_file w_f os_hello_eio 4711)) = [(CFstat 0, Inl EIO)]"
proof -
  have a: "fd w_f \<noteq> -1" by (simp add: w_f_def)
  have b: "fst (size_file w_f os_hello 4711) = Inr 5"
    "fst (sys_fstat 0 4711 os_hello_eio) = - 1"
    "fst (snd (sys_fstat 0 4711 os_hello_eio)) = 4711"
    "fst (size_file w_f os_hello_eio 4711) = Inr 0"
    "new_events os_hello_eio (snd (size_file w_f os_hello_eio 4711)) = [(CFstat 0, Inl EIO)]"
    by (simp_all add: size_file_def sys_fstat_def os_hello_def os_hello_eio_def eval_defs)
  from size_file_degrades[OF a, of os_hello_eio 4711] a b show ?thesis by simp
qed




text \<open>
  C9, as the code has it. \<^verbatim>\<open>openExistingFile\<close> and \<^verbatim>\<open>createFile\<close> bind the path
  first, so the object carries the new path however they end. When they throw because
  \<^verbatim>\<open>open\<close> failed, the descriptor of the object is the -1 that \<^verbatim>\<open>open\<close>
  returned; it is left as it was only when \<^verbatim>\<open>openExistingFile\<close> throws because the
  path is not a regular file, or \<^verbatim>\<open>createFile\<close> stops at its assertion.
\<close>

theorem path_rebound_before_open:
  "(case openExistingFile w os name len of (res, w', os') \<Rightarrow>
      filename w' = name \<and>
      (case res of Inr u \<Rightarrow> 0 \<le> fd w'
       | Inl x \<Rightarrow> if isFile os name then fd w' = - 1 else fd w' = fd w)) \<and>
   (case createFile w os name addFlags of (res, w', os') \<Rightarrow>
      filename w' = name \<and>
      (case res of Inr u \<Rightarrow> 0 \<le> fd w'
       | Inl x \<Rightarrow> if name = [] then fd w' = fd w else fd w' = - 1))"
proof -
  have A: "case openExistingFile w os name len of (res, w', os') \<Rightarrow>
      filename w' = name \<and>
      (case res of Inr u \<Rightarrow> 0 \<le> fd w'
       | Inl x \<Rightarrow> if isFile os name then fd w' = - 1 else fd w' = fd w)"
  proof (cases "isFile os name")
    case False
    then show ?thesis by (simp add: openExistingFile_def)
  next
    case True
    obtain r os' where op: "sys_open name (O_RDWR OR O_BINARY) OPEN_MODE os = (r, os')"
      by (cases "sys_open name (O_RDWR OR O_BINARY) OPEN_MODE os")
    from sys_open_result[OF op] have "r = -1 \<or> 0 \<le> r" by auto
    with True op show ?thesis by (auto simp: openExistingFile_def)
  qed
  have B: "case createFile w os name addFlags of (res, w', os') \<Rightarrow>
      filename w' = name \<and>
      (case res of Inr u \<Rightarrow> 0 \<le> fd w'
       | Inl x \<Rightarrow> if name = [] then fd w' = fd w else fd w' = - 1)"
  proof (cases "name = []")
    case True
    then show ?thesis by (simp add: createFile_def)
  next
    case False
    obtain made os1 where mk: "mkdirs (getDirname name) os = (made, os1)"
      by (cases "mkdirs (getDirname name) os")
    obtain r os' where op:
      "sys_open name (O_CREAT OR O_RDWR OR O_TRUNC OR O_BINARY OR addFlags) OPEN_MODE os1 = (r, os')"
      by (cases "sys_open name (O_CREAT OR O_RDWR OR O_TRUNC OR O_BINARY OR addFlags) OPEN_MODE os1")
    from sys_open_result[OF op] have "r = -1 \<or> 0 \<le> r" by auto
    with False mk op show ?thesis by (auto simp: createFile_def)
  qed
  from A B show ?thesis by simp
qed

theorem path_rebound_before_open_witness:
  "fst (openExistingFile w_f os_eacces ''g'' 0) = Inl (DlAbortEx (EX_FILE_OPEN ''g'' MSG_FILE_NOT_FOUND)) \<and>
   filename (fst (snd (openExistingFile w_f os_eacces ''g'' 0))) = ''g'' \<and>
   fd (fst (snd (openExistingFile w_f os_eacces ''g'' 0))) = fd w_f \<and>
   fst (createFile AbstractDiskWriter os_stored ''f'' 0) = Inr () \<and>
   filename (fst (snd (createFile AbstractDiskWriter os_stored ''f'' 0))) = ''f'' \<and>
   fd (fst (snd (createFile AbstractDiskWriter os_stored ''f'' 0))) = 0"
  using path_rebound_before_open[where w = w_f and os = os_eacces and name = "''g''" and len = 0
      and addFlags = 0]
    path_rebound_before_open[where w = AbstractDiskWriter and os = os_stored and name = "''f''"
      and len = 0 and addFlags = 0]
  by (simp add: openExistingFile_def os_eacces_def os_stored_def eval_defs eval_defs2)

text \<open>
  The object is open on descriptor 0 and \<^verbatim>\<open>createFile\<close> is called for another path;
  the platform fails the \<^verbatim>\<open>open\<close>. The open error is thrown, the path is the new
  one, and the descriptor of the object is now -1, not the 0 it was, while descriptor 0
  is still open on the platform.
\<close>

theorem failed_open_clears_handle:
  "fd w_f = 0 \<and>
   fst (createFile w_f os_eacces ''g'' 0) = Inl (DlAbortEx (EX_FILE_OPEN ''g'' (Strerror EACCES))) \<and>
   filename (fst (snd (createFile w_f os_eacces ''g'' 0))) = ''g'' \<and>
   fd (fst (snd (createFile w_f os_eacces ''g'' 0))) = - 1 \<and>
   map_option ofd_path (fd_lookup (snd (snd (createFile w_f os_eacces ''g'' 0))) 0) = Some ''f''"
  by (simp add: os_eacces_def eval_defs eval_defs2)

text \<open>
  C10, as the code has it. From any state of the loop of \<^verbatim>\<open>writeDataInternal\<close>: the
  loop returns when from now on no \<^verbatim>\<open>write\<close> that succeeds moves zero bytes and no
  run of interruptions is endless; and it never returns when bytes remain to be written,
  the descriptor is open for writing and every \<^verbatim>\<open>write\<close> from now on succeeds with
  zero bytes.
\<close>

theorem write_loop_returns_or_spins:
  "(progressing os \<and> fair_interrupts os \<and> 0 \<le> k \<longrightarrow>
      (\<exists>r os'. write_loop w data k os = Some (r, os'))) \<and>
   (stalled os \<and> open_for_writing os w \<and> 0 \<le> k \<and> nat k < length data \<longrightarrow>
      write_loop w data k os = None)"
proof (intro conjI impI)
  assume "progressing os \<and> fair_interrupts os \<and> 0 \<le> k"
  then have "\<exists>y. write_loop w data k os = Some y"
    by (intro write_loop_terminates) (auto simp: progressing_def fair_interrupts_def)
  then show "\<exists>r os'. write_loop w data k os = Some (r, os')" by auto
next
  assume "stalled os \<and> open_for_writing os w \<and> 0 \<le> k \<and> nat k < length data"
  then show "write_loop w data k os = None"
    by (intro write_loop_stalls) (auto simp: stalled_def)
qed

theorem write_loop_returns_or_spins_witness:
  "progressing os_short_writes \<and> fair_interrupts os_short_writes \<and>
   writeDataInternal w_f os_short_writes [0x61, 0x62, 0x63] \<noteq> None \<and>
   stalled os_stall \<and> open_for_writing os_stall w_f \<and>
   writeDataInternal w_f os_stall [0x61] = None"
proof -
  have a: "stalled os_stall" "open_for_writing os_stall w_f"
    by (simp_all add: stalled_def open_for_writing_def os_stall_def eval_defs eval_defs2)
  from write_loop_returns_or_spins[of os_short_writes 0 w_f "[0x61, 0x62, 0x63]"]
    write_loop_returns_or_spins[of os_stall 0 w_f "[0x61]"]
    a progressing_short_writes fair_short_writes
  show ?thesis by (auto simp: writeDataInternal_def)
qed

text \<open>
  On a platform that interrupts every call, each \<^verbatim>\<open>write\<close> that succeeds does move
  at least one byte, since none succeeds; yet the loop never returns. And on a platform
  whose first \<^verbatim>\<open>write\<close> succeeds with zero bytes and whose second completes, the
  loop returns with the one byte written.
\<close>

theorem endless_interrupts_counterexample:
  "progressing os_intr \<and> writeDataInternal w_f os_intr [0x61] = None \<and>
   new_events os_one_zero (snd (the (writeDataInternal w_f os_one_zero [0x61]))) =
     [(CWrite 0 [0x61], Inr 0), (CWrite 0 [0x61], Inr 1)] \<and>
   map_option fst (writeDataInternal w_f os_one_zero [0x61]) = Some 1"
proof -
  have "progressing os_intr" by (simp add: progressing_def os_intr_def os_open_def)
  moreover have "write_retry (fd w_f) [0x61] os_intr = None"
    by (rule write_retry_spins[where d = "\<lparr>ofd_path = ''f'', ofd_pos = 0, ofd_flags = O_RDWR\<rparr>"])
       (simp_all add: os_intr_def eval_defs)
  then have "writeDataInternal w_f os_intr [0x61] = None"
    by (simp add: writeDataInternal_def write_loop.simps)
  moreover have
    "new_events os_one_zero (snd (the (writeDataInternal w_f os_one_zero [0x61]))) =
       [(CWrite 0 [0x61], Inr 0), (CWrite 0 [0x61], Inr 1)]"
    "map_option fst (writeDataInternal w_f os_one_zero [0x61]) = Some 1"
    by (simp_all add: os_one_zero_def eval_defs write_loop.simps write_retry.simps)
  ultimately show ?thesis by blast
qed

end
